theory Spec2Isabelle
  imports Complex_Main "HOL-Library.Product_Lexorder" "HOL-Library.Sublist"
begin

section \<open>Python strings\<close>

text \<open>
  A Python \<open>str\<close> is modelled as a \<open>string\<close>, one \<open>char\<close> per code point (code
  points up to 255).  The only literal of \<open>app.py\<close> outside that range is the warning
  sign in front of the ffmpeg message; it is an output only and is written as its UTF-8
  bytes.
\<close>

definition py_isspace :: "char \<Rightarrow> bool" where
  \<comment> \<open>the white space that \<open>str.strip()\<close> removes\<close>
  "py_isspace c \<longleftrightarrow>
     c \<in> set [CHR 0x09, CHR 0x0A, CHR 0x0B, CHR 0x0C, CHR 0x0D,
               CHR 0x1C, CHR 0x1D, CHR 0x1E, CHR 0x1F, CHR 0x20, CHR 0x85, CHR 0xA0]"

definition strip :: "string \<Rightarrow> string" where
  "strip s = rev (dropWhile py_isspace (rev (dropWhile py_isspace s)))"

definition lstrip_chars :: "string \<Rightarrow> string \<Rightarrow> string" where
  \<comment> \<open>\<open>s.lstrip(cs)\<close>\<close>
  "lstrip_chars cs s = dropWhile (\<lambda>c. c \<in> set cs) s"

definition str_or :: "string \<Rightarrow> string \<Rightarrow> string" where
  \<comment> \<open>\<open>a or b\<close> on strings: the empty string is falsy\<close>
  "str_or a b = (if a \<noteq> [] then a else b)"

definition opt_str_or :: "string option \<Rightarrow> string \<Rightarrow> string" where
  \<comment> \<open>\<open>a or b\<close> where \<open>a\<close> is \<open>None\<close> or a string\<close>
  "opt_str_or a b = (case a of None \<Rightarrow> b | Some s \<Rightarrow> str_or s b)"

section \<open>Regular expressions, as \<open>re.match\<close> uses them\<close>

text \<open>
  The constructs the pattern of \<open>app.py\<close> is written with.  \<open>Dot\<close> is \<open>.\<close> (any
  character but a newline, no DOTALL flag), \<open>NoneOf cs\<close> is \<open>[^cs]\<close>, \<open>Opt\<close> is \<open>?\<close>,
  \<open>Plus\<close> is \<open>+\<close> and \<open>Times r n\<close> is \<open>r{n}\<close>.
\<close>

datatype rx =
    Lit string
  | Dot
  | NoneOf string
  | Seq rx rx
  | Alt rx rx
  | Opt rx
  | Plus rx
  | Times rx nat

definition step :: "(string \<Rightarrow> string list) \<Rightarrow> string list \<Rightarrow> string list" where
  "step f ss = concat (map f ss)"

text \<open>
  \<open>rests r s\<close> lists what is left of \<open>s\<close> after each way of matching \<open>r\<close> at its start,
  in the order a backtracking matcher tries them.  One more round of \<open>Plus\<close> only helps
  while it consumes a character, so \<open>length s + 1\<close> rounds cover every match.
\<close>

primrec rests :: "rx \<Rightarrow> string \<Rightarrow> string list" where
  "rests (Lit l) s = (if take (length l) s = l then [drop (length l) s] else [])"
| "rests Dot s = (case s of [] \<Rightarrow> [] | c # t \<Rightarrow> if c = CHR 0x0A then [] else [t])"
| "rests (NoneOf cs) s = (case s of [] \<Rightarrow> [] | c # t \<Rightarrow> if c \<in> set cs then [] else [t])"
| "rests (Seq a b) s = step (rests b) (rests a s)"
| "rests (Alt a b) s = rests a s @ rests b s"
| "rests (Opt a) s = rests a s @ [s]"
| "rests (Plus a) s =
     concat (map (\<lambda>k. (step (rests a) ^^ Suc k) [s]) (rev [0..<Suc (length s)]))"
| "rests (Times a n) s = (step (rests a) ^^ n) [s]"

definition re_match :: "rx \<Rightarrow> string \<Rightarrow> bool" where
  \<comment> \<open>\<open>bool(r.match(s))\<close>: the pattern matches at the start of \<open>s\<close>; the end is free\<close>
  "re_match r s \<longleftrightarrow> rests r s \<noteq> []"

definition re_sub_class :: "string \<Rightarrow> char \<Rightarrow> string \<Rightarrow> string" where
  \<comment> \<open>\<open>re.sub('[cs]', c', s)\<close> for a character class and a one-character replacement\<close>
  "re_sub_class cs c' s = map (\<lambda>c. if c \<in> set cs then c' else c) s"

section \<open>The URL validator\<close>

definition YOUTUBE_REGEX :: rx where
  "YOUTUBE_REGEX =
     Seq (Opt (Seq (Lit ''http'') (Seq (Opt (Lit ''s'')) (Lit ''://''))))
    (Seq (Opt (Lit ''www.''))
    (Seq (Alt (Lit ''youtube'') (Alt (Lit ''youtu'') (Lit ''youtube-nocookie'')))
    (Seq (Lit ''.'')
    (Seq (Alt (Lit ''com'') (Lit ''be''))
    (Seq (Lit ''/'')
    (Seq (Opt (Alt (Lit ''watch?v='') (Alt (Lit ''embed/'') (Alt (Lit ''v/'')
            (Alt (Lit ''shorts/'') (Seq (Plus Dot) (Lit ''?v='')))))))
         (Times (NoneOf ''&=%?'') 11)))))))"

definition is_valid_youtube_url :: "string option \<Rightarrow> bool" where
  \<comment> \<open>the argument is a string or \<open>None\<close>; \<open>url or ""\<close> turns both falsy values into \<open>""\<close>\<close>
  "is_valid_youtube_url url = re_match YOUTUBE_REGEX (opt_str_or url '''')"

section \<open>The world outside the program\<close>

text \<open>
  Every call that leaves \<open>app.py\<close> for an effect (the ffmpeg probe, \<open>uuid4\<close>, the
  extraction engine, the file system, \<open>send_file\<close>, \<open>print\<close>) is recorded in \<open>calls\<close>,
  in order, and \<open>files\<close> is the set of paths that exist.  What those calls answer is the
  environment's choice: the fields of \<open>env\<close>.  One request is served at a time.
\<close>

datatype optval = OBool bool | OStr string | ONum nat

type_synonym opts = "(string \<times> optval) list"

text \<open>
  The dictionaries of the extraction engine, with the types yt-dlp gives their entries;
  \<open>None\<close> is a missing key or a null value, which \<open>.get\<close> does not tell apart.
  The one entry \<open>app.py\<close> reads with a default is \<open>formats\<close>: \<open>info_formats\<close>
  is the value of \<open>info.get("formats", [])\<close>, so there \<open>None\<close> is a null value
  under a key that is present, and a missing key is \<open>Some []\<close>.
\<close>

record raw_format =
  r_format_id :: "string option"
  r_ext :: "string option"
  r_filesize :: "real option"
  r_filesize_approx :: "real option"
  r_height :: "int option"
  r_width :: "int option"
  r_fps :: "real option"
  r_vcodec :: "string option"
  r_acodec :: "string option"
  r_format_note :: "string option"
  r_abr :: "real option"
  r_tbr :: "real option"
  r_asr :: "int option"
  r_protocol :: "string option"
  r_container :: "string option"
  r_format :: "string option"
  r_quality :: "real option"

record info =
  info_id :: "string option"
  info_title :: "string option"
  info_duration :: "real option"
  info_uploader :: "string option"
  info_thumbnail :: "string option"
  info_thumbnails :: "string option list option"
  info_formats :: "raw_format list option"

datatype call =
    Subprocess_run "string list"
  | Uuid4
  | Extract_info opts string bool
  | Path_exists string
  | Os_remove string
  | Send_file string string
  | Print string

record world =
  files :: "string set"
  calls :: "call list"

record env =
  DOWNLOAD_FOLDER :: string
  ffmpeg_runs :: bool
  uuid4_hex :: string
  ydl_extract_info ::
    "opts \<Rightarrow> string \<Rightarrow> bool \<Rightarrow> string set \<Rightarrow> (string + info) \<times> string set"
  ydl_prepare_filename :: "opts \<Rightarrow> info \<Rightarrow> string"
  send_file_raises :: "string \<Rightarrow> string option"
  os_remove_raises :: "string \<Rightarrow> string option"

definition called :: "call \<Rightarrow> world \<Rightarrow> world" where
  "called c w = w\<lparr>calls := calls w @ [c]\<rparr>"

definition check_ffmpeg :: "env \<Rightarrow> world \<Rightarrow> bool \<times> world" where
  \<comment> \<open>\<open>ffmpeg_runs\<close>: \<open>subprocess.run(["ffmpeg", "-version"], check=True)\<close> raises nothing\<close>
  "check_ffmpeg e w =
     (if ffmpeg_runs e then (True, called (Subprocess_run [''ffmpeg'', ''-version'']) w)
      else (False, called (Subprocess_run [''ffmpeg'', ''-version'']) w))"

definition uuid4 :: "env \<Rightarrow> world \<Rightarrow> string \<times> world" where
  "uuid4 e w = (uuid4_hex e, called Uuid4 w)"

definition extract_info ::
  "env \<Rightarrow> opts \<Rightarrow> string \<Rightarrow> bool \<Rightarrow> world \<Rightarrow> (string + info) \<times> world" where
  \<comment> \<open>\<open>YoutubeDL(opts).extract_info(url, download=d)\<close>: \<open>Inl\<close> is the message of the
      exception it raised; either way it may have written files\<close>
  "extract_info e ydl_opts url d w =
     (let (r, fs) = ydl_extract_info e ydl_opts url d (files w)
      in (r, (called (Extract_info ydl_opts url d) w)\<lparr>files := fs\<rparr>))"

definition os_path_exists :: "string \<Rightarrow> world \<Rightarrow> bool \<times> world" where
  "os_path_exists p w = (p \<in> files w, called (Path_exists p) w)"

definition os_remove :: "env \<Rightarrow> string \<Rightarrow> world \<Rightarrow> (string + unit) \<times> world" where
  "os_remove e p w =
     (case os_remove_raises e p of
        Some err \<Rightarrow> (Inl err, called (Os_remove p) w)
      | None \<Rightarrow> (Inr (), called (Os_remove p) (w\<lparr>files := files w - {p}\<rparr>)))"

definition os_path_join :: "string \<Rightarrow> string \<Rightarrow> string" where
  \<comment> \<open>\<open>posixpath.join\<close> of two components\<close>
  "os_path_join a b =
     (if b \<noteq> [] \<and> hd b = CHR ''/'' then b
      else if a = [] \<or> last a = CHR ''/'' then a @ b
      else a @ ''/'' @ b)"

definition os_path_splitext :: "string \<Rightarrow> string \<times> string" where
  \<comment> \<open>\<open>posixpath.splitext\<close>: the extension starts at the last dot of the last component,
      unless only dots come before it there\<close>
  "os_path_splitext p =
     (let r = rev p;
          e = takeWhile (\<lambda>c. c \<noteq> CHR ''.'' \<and> c \<noteq> CHR ''/'') r
      in case dropWhile (\<lambda>c. c \<noteq> CHR ''.'' \<and> c \<noteq> CHR ''/'') r of
           [] \<Rightarrow> (p, [])
         | c # front \<Rightarrow>
             if c = CHR ''.''
                \<and> \<not> list_all (\<lambda>d. d = CHR ''.'') (takeWhile (\<lambda>d. d \<noteq> CHR ''/'') front)
             then (rev front, CHR ''.'' # rev e)
             else (p, []))"

definition args_get :: "(string \<Rightarrow> string option) \<Rightarrow> string \<Rightarrow> string \<Rightarrow> string" where
  \<comment> \<open>\<open>request.args.get(key, default)\<close>\<close>
  "args_get args k d = (case args k of None \<Rightarrow> d | Some v \<Rightarrow> v)"

section \<open>The metadata fetcher\<close>

datatype label = Label_none | Label_str string | Label_num real

record fmt =
  format_id :: "string option"
  ext :: "string option"
  filesize :: "real option"
  height :: "int option"
  width :: "int option"
  fps :: "real option"
  vcodec :: "string option"
  acodec :: "string option"
  format_note :: "string option"
  abr :: "real option"
  tbr :: "real option"
  asr :: "int option"
  protocol :: "string option"
  container :: "string option"
  progressive :: bool
  audio_only :: bool
  video_only :: bool
  quality_label :: label

definition num_or :: "'a::zero option \<Rightarrow> 'a \<Rightarrow> 'a" where
  \<comment> \<open>\<open>a or b\<close> where \<open>a\<close> is \<open>None\<close> or a number: \<open>None\<close> and zero are falsy\<close>
  "num_or a b = (case a of None \<Rightarrow> b | Some x \<Rightarrow> if x \<noteq> 0 then x else b)"

definition opt_num_or :: "'a::zero option \<Rightarrow> 'a option \<Rightarrow> 'a option" where
  "opt_num_or a b = (case a of None \<Rightarrow> b | Some x \<Rightarrow> if x \<noteq> 0 then Some x else b)"

definition label_of :: "string option \<Rightarrow> string option \<Rightarrow> real option \<Rightarrow> label" where
  \<comment> \<open>\<open>f.get("format") or f.get("format_note") or f.get("quality")\<close>\<close>
  "label_of a b c =
     (if a \<noteq> None \<and> a \<noteq> Some [] then Label_str (the a)
      else if b \<noteq> None \<and> b \<noteq> Some [] then Label_str (the b)
      else case c of None \<Rightarrow> Label_none | Some q \<Rightarrow> Label_num q)"

definition make_fmt :: "raw_format \<Rightarrow> fmt" where
  "make_fmt f =
     \<lparr> format_id = r_format_id f,
       ext = r_ext f,
       filesize = opt_num_or (r_filesize f) (r_filesize_approx f),
       height = r_height f,
       width = r_width f,
       fps = r_fps f,
       vcodec = r_vcodec f,
       acodec = r_acodec f,
       format_note = r_format_note f,
       abr = r_abr f,
       tbr = r_tbr f,
       asr = r_asr f,
       protocol = r_protocol f,
       container = r_container f,
       progressive = (r_vcodec f \<noteq> Some ''none'' \<and> r_acodec f \<noteq> Some ''none''),
       audio_only = (r_vcodec f = Some ''none'' \<and> r_acodec f \<noteq> Some ''none''),
       video_only = (r_vcodec f \<noteq> Some ''none'' \<and> r_acodec f = Some ''none''),
       quality_label = label_of (r_format f) (r_format_note f) (r_quality f) \<rparr>"

definition ALLOWED_EXT :: "string list" where
  "ALLOWED_EXT = [''mp4'', ''webm'', ''m4a'', ''mp3'', ''opus'']"

definition admitted :: "fmt \<Rightarrow> bool" where
  \<comment> \<open>\<open>fmt["ext"] in ("mp4", "webm", "m4a", "mp3", "opus")\<close>\<close>
  "admitted fm \<longleftrightarrow> ext fm \<in> set (map Some ALLOWED_EXT)"

primrec collect_formats :: "raw_format list \<Rightarrow> fmt list" where
  \<comment> \<open>the \<open>for f in info.get("formats", [])\<close> loop\<close>
  "collect_formats [] = []"
| "collect_formats (f # fs) =
     (let fm = make_fmt f
      in if admitted fm then fm # collect_formats fs else collect_formats fs)"

definition sort_key_fmt :: "fmt \<Rightarrow> int \<times> int \<times> real" where
  \<comment> \<open>\<open>sort_key\<close> of \<open>video_info\<close>; tuples compare lexicographically\<close>
  "sort_key_fmt f =
     (let group = (if progressive f then 0 else (if video_only f then 1 else 2));
          height = num_or (height f) 0;
          abr = num_or (abr f) 0
      in (group, - height, - abr))"

definition list_sort :: "('a \<Rightarrow> 'k::linorder) \<Rightarrow> 'a list \<Rightarrow> 'a list" where
  \<comment> \<open>\<open>xs.sort(key=k)\<close>: Python's sort is stable, and a stable sort has one result;
      it is computed here by insertion\<close>
  "list_sort k xs = foldr (insort_key k) xs []"

definition retained_formats :: "info \<Rightarrow> fmt list" where
  \<comment> \<open>the list \<open>formats\<close> after the loop; over a null value the loop raises before it
      has appended anything\<close>
  "retained_formats i = collect_formats (case info_formats i of None \<Rightarrow> [] | Some fs \<Rightarrow> fs)"

definition sorted_formats :: "info \<Rightarrow> fmt list" where
  "sorted_formats i = list_sort sort_key_fmt (retained_formats i)"

record video_metadata =
  vm_id :: "string option"
  vm_title :: "string option"
  vm_duration :: "real option"
  vm_uploader :: "string option"
  vm_thumbnail :: "string option"
  vm_formats :: "fmt list"
  vm_original_url :: string

datatype response =
    Error_json string nat
  | Info_json video_metadata
  | Attachment string string
  | Status_ok

definition thumbnail_of :: "info \<Rightarrow> string option" where
  \<comment> \<open>\<open>info.get("thumbnail") or (info.get("thumbnails") or [{}])[-1].get("url")\<close>\<close>
  "thumbnail_of i =
     (if info_thumbnail i \<noteq> None \<and> info_thumbnail i \<noteq> Some [] then info_thumbnail i
      else case info_thumbnails i of
             None \<Rightarrow> None
           | Some ts \<Rightarrow> if ts = [] then None else last ts)"

definition NOT_ITERABLE :: string where
  \<comment> \<open>the message of the \<open>TypeError\<close> that \<open>for f in None\<close> raises\<close>
  "NOT_ITERABLE = [CHR 0x27] @ ''NoneType'' @ [CHR 0x27] @ '' object is not iterable''"

definition video_info :: "env \<Rightarrow> (string \<Rightarrow> string option) \<Rightarrow> world \<Rightarrow> response \<times> world" where
  "video_info e args w =
     (let url = strip (args_get args ''url'' '''')
      in if url = [] then (Error_json ''No URL provided'' 400, w)
         else if \<not> is_valid_youtube_url (Some url)
         then (Error_json ''Invalid YouTube URL'' 400, w)
         else
           let ydl_opts = [(''quiet'', OBool True), (''no_warnings'', OBool True),
                           (''skip_download'', OBool True), (''geo_bypass'', OBool True),
                           (''nocheckcertificate'', OBool True)]
           in case extract_info e ydl_opts url False w of
                (Inl err, w1) \<Rightarrow> (Error_json (''Failed to fetch video info: '' @ err) 500, w1)
              | (Inr i, w1) \<Rightarrow>
                  if info_formats i = None
                  then (Error_json (''Failed to fetch video info: '' @ NOT_ITERABLE) 500, w1)
                  else
                    (Info_json \<lparr> vm_id = info_id i, vm_title = info_title i,
                                 vm_duration = info_duration i, vm_uploader = info_uploader i,
                                 vm_thumbnail = thumbnail_of i, vm_formats = sorted_formats i,
                                 vm_original_url = url \<rparr>, w1))"

section \<open>The job controller\<close>

type_synonym after_request = "response \<Rightarrow> world \<Rightarrow> response \<times> world"

definition FFMPEG_MISSING :: string where
  \<comment> \<open>the message starts with U+26A0 U+FE0F and a space\<close>
  "FFMPEG_MISSING =
     [CHR 0xE2, CHR 0x9A, CHR 0xA0, CHR 0xEF, CHR 0xB8, CHR 0x8F]
     @ '' ffmpeg is not installed or not in PATH. Please install ffmpeg.''"

definition DEFAULT_FORMAT :: string where
  "DEFAULT_FORMAT = ''bestvideo+bestaudio/best''"

definition format_spec_of :: "string \<Rightarrow> string" where
  \<comment> \<open>\<open>format_id if format_id else "bestvideo+bestaudio/best"\<close>\<close>
  "format_spec_of fid = (if fid \<noteq> [] then fid else DEFAULT_FORMAT)"

definition download_opts :: "string \<Rightarrow> string \<Rightarrow> opts" where
  "download_opts outtmpl format_spec =
     [(''outtmpl'', OStr outtmpl), (''format'', OStr format_spec), (''quiet'', OBool True),
      (''no_warnings'', OBool True), (''merge_output_format'', OStr ''mp4''),
      (''geo_bypass'', OBool True), (''nocheckcertificate'', OBool True),
      (''retries'', ONum 3), (''fragment_retries'', ONum 3)]"

definition remove_file :: "env \<Rightarrow> string \<Rightarrow> after_request" where
  \<comment> \<open>the closure registered with \<open>after_this_request\<close>, over \<open>final_path\<close>\<close>
  "remove_file e final_path resp w =
     (let (ex, w1) = os_path_exists final_path w
      in if ex then
           (case os_remove e final_path w1 of
              (Inl err, w2) \<Rightarrow> (resp, called (Print (''Cleanup error: '' @ err)) w2)
            | (Inr u, w2) \<Rightarrow> (resp, w2))
         else (resp, w1))"

definition send_file :: "env \<Rightarrow> string \<Rightarrow> string \<Rightarrow> world \<Rightarrow> (string + response) \<times> world" where
  \<comment> \<open>\<open>send_file(path, as_attachment=True, download_name=name)\<close>\<close>
  "send_file e path name w =
     (case send_file_raises e path of
        Some err \<Rightarrow> (Inl err, called (Send_file path name) w)
      | None \<Rightarrow> (Inr (Attachment path name), called (Send_file path name) w))"

definition resolve_final_path :: "string \<Rightarrow> world \<Rightarrow> string \<times> world" where
  \<comment> \<open>lines 140 to 143: the reported path, or the \<open>.mp4\<close> path when only that exists\<close>
  "resolve_final_path reported w =
     (let (ex, w1) = os_path_exists reported w
      in if \<not> ex then
           let alt = fst (os_path_splitext reported) @ ''.mp4'';
               (ex_alt, w2) = os_path_exists alt w1
           in if ex_alt then (alt, w2) else (reported, w2)
         else (reported, w1))"

definition HOSTILE :: string where
  \<comment> \<open>the class \<open>[\\/*?:"<>|]\<close>\<close>
  "HOSTILE = [CHR 0x5C, CHR ''/'', CHR ''*'', CHR ''?'', CHR '':'', CHR 0x22,
              CHR ''<'', CHR ''>'', CHR ''|'']"

definition title_of :: "info \<Rightarrow> string" where
  "title_of i = strip (opt_str_or (info_title i) ''video'')"

definition safe_title_of :: "info \<Rightarrow> string" where
  "safe_title_of i = re_sub_class HOSTILE (CHR ''_'') (title_of i)"

definition ext_of :: "string \<Rightarrow> string" where
  "ext_of final_path = str_or (lstrip_chars ''.'' (snd (os_path_splitext final_path))) ''mp4''"

definition download_name :: "info \<Rightarrow> string \<Rightarrow> string" where
  \<comment> \<open>\<open>f"{safe_title}.{ext}"\<close>\<close>
  "download_name i final_path = safe_title_of i @ ''.'' @ ext_of final_path"

definition download_job ::
  "env \<Rightarrow> string \<Rightarrow> opts \<Rightarrow> world \<Rightarrow> response \<times> after_request list \<times> world" where
  \<comment> \<open>the \<open>try\<close> block of \<open>download\<close>, with its \<open>except Exception\<close>\<close>
  "download_job e url ydl_opts w =
     (case extract_info e ydl_opts url True w of
        (Inl err, w1) \<Rightarrow> (Error_json (''Download failed: '' @ err) 500, [], w1)
      | (Inr i, w1) \<Rightarrow>
          let (final_path, w2) = resolve_final_path (ydl_prepare_filename e ydl_opts i) w1;
              (ex, w3) = os_path_exists final_path w2
          in if \<not> ex then (Error_json ''File not found after download'' 500, [], w3)
             else
               (case send_file e final_path (download_name i final_path) w3 of
                  (Inl err, w4) \<Rightarrow>
                    (Error_json (''Download failed: '' @ err) 500, [remove_file e final_path], w4)
                | (Inr resp, w4) \<Rightarrow> (resp, [remove_file e final_path], w4)))"

definition download ::
  "env \<Rightarrow> (string \<Rightarrow> string option) \<Rightarrow> world \<Rightarrow> response \<times> after_request list \<times> world" where
  "download e args w =
     (let url = strip (args_get args ''url'' '''');
          format_id = strip (args_get args ''format_id'' '''')
      in if url = [] then (Error_json ''No URL provided'' 400, [], w)
         else if \<not> is_valid_youtube_url (Some url)
         then (Error_json ''Invalid YouTube URL'' 400, [], w)
         else
           let format_spec = format_spec_of format_id;
               (ok, w1) = check_ffmpeg e w
           in if \<not> ok then (Error_json FFMPEG_MISSING 500, [], w1)
              else
                let (uid, w2) = uuid4 e w1;
                    outtmpl = os_path_join (DOWNLOAD_FOLDER e) (uid @ ''.%(ext)s'')
                in download_job e url (download_opts outtmpl format_spec) w2)"

text \<open>
  Flask calls the functions registered with \<open>after_this_request\<close> once the view has
  returned its response, in the order they were registered, each on the response the
  one before returned.
\<close>

definition run_after_request ::
  "after_request list \<Rightarrow> response \<Rightarrow> world \<Rightarrow> response \<times> world" where
  "run_after_request fs resp w = fold (\<lambda>f (r, v). f r v) fs (resp, w)"

definition serve_download :: "env \<Rightarrow> (string \<Rightarrow> string option) \<Rightarrow> world \<Rightarrow> response \<times> world" where
  "serve_download e args w =
     (let (resp, fs, w1) = download e args w in run_after_request fs resp w1)"

definition health :: response where
  "health = Status_ok"

section \<open>Notions the stated properties are phrased with\<close>

definition falsy :: "string option \<Rightarrow> bool" where
  \<comment> \<open>the falsy values of an argument that is a string or \<open>None\<close>\<close>
  "falsy u \<longleftrightarrow> u = None \<or> u = Some []"

definition new_calls :: "world \<Rightarrow> world \<Rightarrow> call list" where
  \<comment> \<open>the calls made between an earlier world and a later one\<close>
  "new_calls w w' = drop (length (calls w)) (calls w')"

text \<open>Sample data for the concrete instances below.\<close>

definition info_titled :: "string option \<Rightarrow> info" where
  "info_titled t =
     \<lparr>info_id = None, info_title = t, info_duration = None, info_uploader = None,
      info_thumbnail = None, info_thumbnails = None, info_formats = Some []\<rparr>"

definition UID0 :: string where
  "UID0 = ''0123456789abcdef0123456789abcdef''"

definition OUTTMPL0 :: string where
  "OUTTMPL0 = ''downloads/0123456789abcdef0123456789abcdef.%(ext)s''"

definition OUT_WEBM :: string where
  "OUT_WEBM = ''downloads/0123456789abcdef0123456789abcdef.webm''"

definition OUT_MP4 :: string where
  "OUT_MP4 = ''downloads/0123456789abcdef0123456789abcdef.mp4''"

definition OUT_MKV :: string where
  "OUT_MKV = ''downloads/0123456789abcdef0123456789abcdef.mkv''"

definition OUT_F137 :: string where
  "OUT_F137 = ''downloads/0123456789abcdef0123456789abcdef.f137.mp4''"

definition URL0 :: string where
  "URL0 = ''https://youtu.be/dQw4w9WgXcQ''"

definition info0 :: info where
  "info0 = info_titled (Some ''My:Video/Clip?'')"

definition env0 :: env where
  \<comment> \<open>ffmpeg is there; the engine merges into \<open>.mp4\<close> but reports the \<open>.webm\<close> name\<close>
  "env0 =
     \<lparr>DOWNLOAD_FOLDER = ''downloads'', ffmpeg_runs = True, uuid4_hex = UID0,
      ydl_extract_info = (\<lambda>ydl_opts url d fs. (Inr info0, insert OUT_MP4 fs)),
      ydl_prepare_filename = (\<lambda>ydl_opts i. OUT_WEBM),
      send_file_raises = (\<lambda>p. None),
      os_remove_raises = (\<lambda>p. None)\<rparr>"

definition args0 :: "string \<Rightarrow> string option" where
  "args0 = [''url'' \<mapsto> URL0]"

definition args_137 :: "string \<Rightarrow> string option" where
  \<comment> \<open>the same request with a quality chosen, sent with blanks around it\<close>
  "args_137 = [''url'' \<mapsto> URL0, ''format_id'' \<mapsto> '' 137 '']"

definition w0 :: world where
  "w0 = \<lparr>files = {}, calls = []\<rparr>"

definition env_mkv :: env where
  \<comment> \<open>as \<open>env0\<close>, but the engine leaves a \<open>.mkv\<close> file\<close>
  "env_mkv = env0\<lparr>ydl_extract_info := (\<lambda>ydl_opts url d fs. (Inr info0, insert OUT_MKV fs))\<rparr>"

definition env_raise :: env where
  \<comment> \<open>as \<open>env0\<close>, but the engine raises after it has written one of the two streams\<close>
  "env_raise =
     env0\<lparr>ydl_extract_info :=
        (\<lambda>ydl_opts url d fs.
           (Inl ''ERROR: Postprocessing: Conversion failed!'', insert OUT_F137 fs))\<rparr>"

definition env_locked :: env where
  \<comment> \<open>as \<open>env0\<close>, but \<open>os.remove\<close> raises\<close>
  "env_locked = env0\<lparr>os_remove_raises := (\<lambda>p. Some ''[WinError 32] file in use'')\<rparr>"

definition raw :: "string \<Rightarrow> string \<Rightarrow> string \<Rightarrow> string \<Rightarrow> int option \<Rightarrow> real option \<Rightarrow> raw_format" where
  \<comment> \<open>a raw format entry with an id, an extension, the two codecs, a height and a bitrate\<close>
  "raw fid e vc ac h a =
     \<lparr>r_format_id = Some fid, r_ext = Some e, r_filesize = None, r_filesize_approx = None,
      r_height = h, r_width = None, r_fps = None, r_vcodec = Some vc, r_acodec = Some ac,
      r_format_note = None, r_abr = a, r_tbr = None, r_asr = None, r_protocol = None,
      r_container = None, r_format = None, r_quality = None\<rparr>"

definition info1 :: info where
  \<comment> \<open>an audio track, a storyboard, two video-only streams and a progressive stream\<close>
  "info1 =
     (info_titled (Some ''clip''))
       \<lparr>info_formats := Some
          [raw ''140'' ''m4a'' ''none'' ''mp4a.40.2'' None (Some 129.5),
           raw ''sb0'' ''mhtml'' ''none'' ''none'' (Some 27) None,
           raw ''136'' ''mp4'' ''avc1.4d401f'' ''none'' (Some 720) None,
           raw ''137'' ''mp4'' ''avc1.640028'' ''none'' (Some 1080) None,
           raw ''18'' ''mp4'' ''avc1.42001E'' ''mp4a.40.2'' (Some 360) (Some 96)]\<rparr>"

definition info_codecless :: info where
  \<comment> \<open>one entry in an allowed container whose two codecs are both \<open>none\<close>\<close>
  "info_codecless =
     (info_titled (Some ''clip''))
       \<lparr>info_formats := Some [raw ''x'' ''mp4'' ''none'' ''none'' None None]\<rparr>"

definition count_true :: "bool list \<Rightarrow> nat" where
  "count_true bs = length (filter (\<lambda>b. b) bs)"

section \<open>What a pattern matches\<close>

text \<open>
  The strings a pattern matches in full, to say what \<open>rests\<close> computes, and the set of
  prefixes the pattern of \<open>app.py\<close> accepts, written out.
\<close>

definition conc :: "string set \<Rightarrow> string set \<Rightarrow> string set" where
  "conc A B = {x @ y | x y. x \<in> A \<and> y \<in> B}"

primrec pow :: "string set \<Rightarrow> nat \<Rightarrow> string set" where
  "pow L 0 = {[]}"
| "pow L (Suc n) = conc L (pow L n)"

primrec lang :: "rx \<Rightarrow> string set" where
  "lang (Lit l) = {l}"
| "lang Dot = {[c] | c. c \<noteq> CHR 0x0A}"
| "lang (NoneOf cs) = {[c] | c. c \<notin> set cs}"
| "lang (Seq a b) = conc (lang a) (lang b)"
| "lang (Alt a b) = lang a \<union> lang b"
| "lang (Opt a) = insert [] (lang a)"
| "lang (Plus a) = (\<Union>n. pow (lang a) (Suc n))"
| "lang (Times a n) = pow (lang a) n"

definition accepted_prefix :: "string \<Rightarrow> bool" where
  "accepted_prefix p \<longleftrightarrow>
     (\<exists>scheme www host tld path token.
        p = scheme @ www @ host @ ''.'' @ tld @ ''/'' @ path @ token
      \<and> scheme \<in> {'''', ''http://'', ''https://''}
      \<and> www \<in> {'''', ''www.''}
      \<and> host \<in> {''youtube'', ''youtu'', ''youtube-nocookie''}
      \<and> tld \<in> {''com'', ''be''}
      \<and> (path \<in> {'''', ''watch?v='', ''embed/'', ''v/'', ''shorts/''}
           \<or> (\<exists>pre. pre \<noteq> [] \<and> CHR 0x0A \<notin> set pre \<and> path = pre @ ''?v=''))
      \<and> length token = 11
      \<and> set token \<inter> {CHR ''&'', CHR ''='', CHR ''%'', CHR ''?''} = {})"

section \<open>How a request reaches the job\<close>

lemma valid_short: "is_valid_youtube_url (Some URL0)"
  unfolding URL0_def by code_simp

lemma strip_short: "strip URL0 = URL0"
  by (simp add: strip_def py_isspace_def URL0_def)

lemma URL0_not_nil: "URL0 \<noteq> []"
  by (simp add: URL0_def)

lemma strip_nil: "strip [] = []"
  by (simp add: strip_def)

lemma download_reaches_job:
  assumes "strip (args_get args ''url'' '''') = url" "url \<noteq> []"
    "is_valid_youtube_url (Some url)" "ffmpeg_runs e"
  shows "download e args w =
     download_job e url
       (download_opts (os_path_join (DOWNLOAD_FOLDER e) (uuid4_hex e @ ''.%(ext)s''))
          (format_spec_of (strip (args_get args ''format_id'' ''''))))
       (called Uuid4 (called (Subprocess_run [''ffmpeg'', ''-version'']) w))"
  using assms by (simp add: download_def check_ffmpeg_def uuid4_def Let_def)

lemma download_rejects:
  assumes "strip (args_get args ''url'' '''') = url" "url = [] \<or> \<not> is_valid_youtube_url (Some url)"
  shows "\<exists>msg. download e args w = (Error_json msg 400, [], w)"
  using assms by (auto simp add: download_def Let_def)

lemma download_no_ffmpeg:
  assumes "strip (args_get args ''url'' '''') = url" "url \<noteq> []"
    "is_valid_youtube_url (Some url)" "\<not> ffmpeg_runs e"
  shows "download e args w =
     (Error_json FFMPEG_MISSING 500, [], called (Subprocess_run [''ffmpeg'', ''-version'']) w)"
  using assms by (simp add: download_def check_ffmpeg_def Let_def)

lemma new_calls_self: "new_calls w w = []"
  by (simp add: new_calls_def)

lemma new_calls_called: "new_calls w (called c w) = [c]"
  by (simp add: new_calls_def called_def)

lemma args0_url: "strip (args_get args0 ''url'' '''') = URL0"
  by (simp add: args0_def args_get_def strip_short)

lemma download_job_raises:
  assumes "ydl_extract_info e ydl_opts url True (files w) = (Inl err, fs)"
  shows "download_job e url ydl_opts w =
     (Error_json (''Download failed: '' @ err) 500, [],
      w\<lparr>files := fs, calls := calls w @ [Extract_info ydl_opts url True]\<rparr>)"
  using assms by (simp add: download_job_def extract_info_def called_def)

lemma download_job_missing:
  assumes "ydl_extract_info e ydl_opts url True (files w) = (Inr i, fs)"
    and "reported = ydl_prepare_filename e ydl_opts i"
    and "alt = fst (os_path_splitext reported) @ ''.mp4''"
    and "reported \<notin> fs" "alt \<notin> fs"
  shows "download_job e url ydl_opts w =
     (Error_json ''File not found after download'' 500, [],
      w\<lparr>files := fs,
        calls := calls w @ [Extract_info ydl_opts url True, Path_exists reported,
                            Path_exists alt, Path_exists reported]\<rparr>)"
  using assms
  by (simp add: download_job_def extract_info_def resolve_final_path_def os_path_exists_def
        called_def Let_def)

lemma download_job_found:
  assumes "ydl_extract_info e ydl_opts url True (files w) = (Inr i, fs)"
    and "reported = ydl_prepare_filename e ydl_opts i"
    and "alt = fst (os_path_splitext reported) @ ''.mp4''"
    and "final = (if reported \<in> fs then reported else alt)"
    and "final \<in> fs"
  shows "download_job e url ydl_opts w =
     ((case send_file_raises e final of
         None \<Rightarrow> Attachment final (download_name i final)
       | Some err \<Rightarrow> Error_json (''Download failed: '' @ err) 500),
      [remove_file e final],
      w\<lparr>files := fs,
        calls := calls w @ [Extract_info ydl_opts url True, Path_exists reported]
                 @ (if reported \<in> fs then [] else [Path_exists alt])
                 @ [Path_exists final, Send_file final (download_name i final)]\<rparr>)"
proof (cases "reported \<in> fs")
  case True
  with assms show ?thesis
    by (simp add: download_job_def extract_info_def resolve_final_path_def os_path_exists_def
          send_file_def called_def Let_def split: option.splits)
next
  case False
  with assms show ?thesis
    by (simp add: download_job_def extract_info_def resolve_final_path_def os_path_exists_def
          send_file_def called_def Let_def split: option.splits)
qed

lemma remove_file_removes:
  assumes "p \<in> files w" "os_remove_raises e p = None"
  shows "remove_file e p resp w =
     (resp, w\<lparr>files := files w - {p}, calls := calls w @ [Path_exists p, Os_remove p]\<rparr>)"
  using assms by (simp add: remove_file_def os_path_exists_def os_remove_def called_def)

lemma remove_file_swallows:
  assumes "p \<in> files w" "os_remove_raises e p = Some err"
  shows "remove_file e p resp w =
     (resp, w\<lparr>calls := calls w @ [Path_exists p, Os_remove p, Print (''Cleanup error: '' @ err)]\<rparr>)"
  using assms by (simp add: remove_file_def os_path_exists_def os_remove_def called_def)

lemma remove_file_absent:
  assumes "p \<notin> files w"
  shows "remove_file e p resp w = (resp, w\<lparr>calls := calls w @ [Path_exists p]\<rparr>)"
  using assms by (simp add: remove_file_def os_path_exists_def called_def)


lemma args0_format: "args0 ''format_id'' = None" "strip (args_get args0 ''format_id'' '''') = []"
  by (simp_all add: args0_def args_get_def strip_nil)

lemma outtmpl0: "os_path_join ''downloads'' (UID0 @ ''.%(ext)s'') = OUTTMPL0"
  by (simp add: os_path_join_def UID0_def OUTTMPL0_def)

lemma alt_of_webm: "fst (os_path_splitext OUT_WEBM) @ ''.mp4'' = OUT_MP4"
  by (simp add: os_path_splitext_def OUT_WEBM_def OUT_MP4_def)

lemma out_distinct:
  "OUT_WEBM \<noteq> OUT_MP4" "OUT_MKV \<noteq> OUT_MP4" "OUT_MKV \<noteq> OUT_WEBM"
  "OUT_F137 \<noteq> OUT_MP4" "OUT_F137 \<noteq> OUT_WEBM"
  by (simp_all add: OUT_WEBM_def OUT_MP4_def OUT_MKV_def OUT_F137_def)

lemma name0: "download_name info0 OUT_MP4 = ''My_Video_Clip_.mp4''"
  by (simp add: download_name_def safe_title_of_def title_of_def info0_def info_titled_def
        opt_str_or_def str_or_def strip_def py_isspace_def re_sub_class_def HOSTILE_def
        ext_of_def os_path_splitext_def OUT_MP4_def lstrip_chars_def)

lemma download_sample:
  assumes "ffmpeg_runs e" "DOWNLOAD_FOLDER e = ''downloads''" "uuid4_hex e = UID0"
  shows "download e args0 w0 =
     download_job e URL0 (download_opts OUTTMPL0 ''bestvideo+bestaudio/best'')
       \<lparr>files = {}, calls = [Subprocess_run [''ffmpeg'', ''-version''], Uuid4]\<rparr>"
  using download_reaches_job [OF args0_url URL0_not_nil valid_short assms(1), of w0] assms(2,3)
  by (simp add: args0_format format_spec_of_def DEFAULT_FORMAT_def outtmpl0 called_def w0_def)

lemma download_job_calls:
  "\<exists>rest. calls (snd (snd (download_job e url ydl_opts w)))
            = calls w @ Extract_info ydl_opts url True # rest
        \<and> (\<forall>c \<in> set rest. \<forall>o' u' d'. c \<noteq> Extract_info o' u' d')"
proof -
  obtain r fs where x: "ydl_extract_info e ydl_opts url True (files w) = (r, fs)"
    by (cases "ydl_extract_info e ydl_opts url True (files w)")
  show ?thesis
  proof (cases r)
    case (Inl err)
    with x download_job_raises [of e ydl_opts url w err fs] show ?thesis by simp
  next
    case (Inr i)
    define reported where "reported = ydl_prepare_filename e ydl_opts i"
    define alt where "alt = fst (os_path_splitext reported) @ ''.mp4''"
    define final where "final = (if reported \<in> fs then reported else alt)"
    show ?thesis
    proof (cases "final \<in> fs")
      case True
      from download_job_found [OF x [unfolded Inr] reported_def alt_def final_def True]
      show ?thesis by simp
    next
      case False
      then have "reported \<notin> fs" "alt \<notin> fs" by (auto simp: final_def split: if_splits)
      from download_job_missing [OF x [unfolded Inr] reported_def alt_def this]
      show ?thesis by simp
    qed
  qed
qed

lemma download_env0:
  "download env0 args0 w0 =
     (Attachment OUT_MP4 ''My_Video_Clip_.mp4'', [remove_file env0 OUT_MP4],
      \<lparr>files = {OUT_MP4},
       calls = [Subprocess_run [''ffmpeg'', ''-version''], Uuid4,
                Extract_info (download_opts OUTTMPL0 ''bestvideo+bestaudio/best'') URL0 True,
                Path_exists OUT_WEBM, Path_exists OUT_MP4, Path_exists OUT_MP4,
                Send_file OUT_MP4 ''My_Video_Clip_.mp4'']\<rparr>)"
proof -
  have r: "download env0 args0 w0 =
     download_job env0 URL0 (download_opts OUTTMPL0 ''bestvideo+bestaudio/best'')
       \<lparr>files = {}, calls = [Subprocess_run [''ffmpeg'', ''-version''], Uuid4]\<rparr>"
    by (rule download_sample) (simp_all add: env0_def)
  show ?thesis
    unfolding r
    by (subst download_job_found [where i = info0 and fs = "{OUT_MP4}"
          and reported = OUT_WEBM and alt = OUT_MP4 and final = OUT_MP4])
       (simp_all add: env0_def alt_of_webm name0 out_distinct)
qed

lemma args_137_url: "strip (args_get args_137 ''url'' '''') = URL0"
  by (simp add: args_137_def args_get_def strip_short)

lemma strip_137: "strip '' 137 '' = ''137''"
  by (simp add: strip_def py_isspace_def)

lemma args_137_format:
  "args_137 ''format_id'' = Some '' 137 ''" "strip (args_get args_137 ''format_id'' '''') = ''137''"
  by (simp_all add: args_137_def args_get_def strip_137)

lemma download_sample_137:
  assumes "ffmpeg_runs e" "DOWNLOAD_FOLDER e = ''downloads''" "uuid4_hex e = UID0"
  shows "download e args_137 w0 =
     download_job e URL0 (download_opts OUTTMPL0 ''137'')
       \<lparr>files = {}, calls = [Subprocess_run [''ffmpeg'', ''-version''], Uuid4]\<rparr>"
  using download_reaches_job [OF args_137_url URL0_not_nil valid_short assms(1), of w0] assms(2,3)
  by (simp add: args_137_format format_spec_of_def outtmpl0 called_def w0_def)

lemma download_env0_137:
  "download env0 args_137 w0 =
     (Attachment OUT_MP4 ''My_Video_Clip_.mp4'', [remove_file env0 OUT_MP4],
      \<lparr>files = {OUT_MP4},
       calls = [Subprocess_run [''ffmpeg'', ''-version''], Uuid4,
                Extract_info (download_opts OUTTMPL0 ''137'') URL0 True,
                Path_exists OUT_WEBM, Path_exists OUT_MP4, Path_exists OUT_MP4,
                Send_file OUT_MP4 ''My_Video_Clip_.mp4'']\<rparr>)"
proof -
  have r: "download env0 args_137 w0 =
     download_job env0 URL0 (download_opts OUTTMPL0 ''137'')
       \<lparr>files = {}, calls = [Subprocess_run [''ffmpeg'', ''-version''], Uuid4]\<rparr>"
    by (rule download_sample_137) (simp_all add: env0_def)
  show ?thesis
    unfolding r
    by (subst download_job_found [where i = info0 and fs = "{OUT_MP4}"
          and reported = OUT_WEBM and alt = OUT_MP4 and final = OUT_MP4])
       (simp_all add: env0_def alt_of_webm name0 out_distinct)
qed

lemma takeWhile_upto:
  "\<forall>c \<in> set ys. P c \<Longrightarrow> \<not> P z \<Longrightarrow> takeWhile P (ys @ z # zs) = ys"
  by (induction ys) auto

lemma dropWhile_upto:
  "\<forall>c \<in> set ys. P c \<Longrightarrow> \<not> P z \<Longrightarrow> dropWhile P (ys @ z # zs) = z # zs"
  by (induction ys) auto

lemma splitext_replace:
  assumes "x \<noteq> []" "CHR ''.'' \<notin> set x" "CHR ''/'' \<notin> set x"
    and "\<not> list_all (\<lambda>d. d = CHR ''.'') (takeWhile (\<lambda>d. d \<noteq> CHR ''/'') (rev base))"
  shows "os_path_splitext (base @ ''.'' @ x) = (base, ''.'' @ x)"
proof -
  let ?P = "\<lambda>c. c \<noteq> CHR ''.'' \<and> c \<noteq> CHR ''/''"
  have all: "\<forall>c \<in> set (rev x). ?P c" using assms(2,3) by auto
  have t: "takeWhile ?P (rev x @ CHR ''.'' # rev base) = rev x"
    using all by (rule takeWhile_upto) simp
  have d: "dropWhile ?P (rev x @ CHR ''.'' # rev base) = CHR ''.'' # rev base"
    using all by (rule dropWhile_upto) simp
  show ?thesis
    using assms(4) by (simp add: os_path_splitext_def Let_def t d)
qed

lemma job_env_mkv:
  "download_job env_mkv URL0 (download_opts OUTTMPL0 ''bestvideo+bestaudio/best'')
       \<lparr>files = {}, calls = [Subprocess_run [''ffmpeg'', ''-version''], Uuid4]\<rparr> =
     (Error_json ''File not found after download'' 500, [],
      \<lparr>files = {OUT_MKV},
       calls = [Subprocess_run [''ffmpeg'', ''-version''], Uuid4,
                Extract_info (download_opts OUTTMPL0 ''bestvideo+bestaudio/best'') URL0 True,
                Path_exists OUT_WEBM, Path_exists OUT_MP4, Path_exists OUT_WEBM]\<rparr>)"
  by (subst download_job_missing [where i = info0 and fs = "{OUT_MKV}"
          and reported = OUT_WEBM and alt = OUT_MP4])
     (simp_all add: env_mkv_def env0_def alt_of_webm out_distinct out_distinct [symmetric])

lemma run_one: "run_after_request [f] resp w = f resp w"
  by (simp add: run_after_request_def)

lemma run_none: "run_after_request [] resp w = (resp, w)"
  by (simp add: run_after_request_def)

lemma serve_env0:
  "serve_download env0 args0 w0 =
     (Attachment OUT_MP4 ''My_Video_Clip_.mp4'',
      \<lparr>files = {},
       calls = [Subprocess_run [''ffmpeg'', ''-version''], Uuid4,
                Extract_info (download_opts OUTTMPL0 ''bestvideo+bestaudio/best'') URL0 True,
                Path_exists OUT_WEBM, Path_exists OUT_MP4, Path_exists OUT_MP4,
                Send_file OUT_MP4 ''My_Video_Clip_.mp4'', Path_exists OUT_MP4,
                Os_remove OUT_MP4]\<rparr>)"
  unfolding serve_download_def download_env0
  by (simp add: run_one remove_file_def os_path_exists_def os_remove_def called_def env0_def)

section \<open>The matcher computes the language of its pattern\<close>

text \<open>
  \<open>rests r s\<close> lists exactly the remainders of \<open>s\<close> after a prefix in \<open>lang r\<close>, so
  \<open>re_match\<close> holds when some prefix of the string is in the language; for the pattern of
  \<open>app.py\<close> these prefixes are the ones \<open>accepted_prefix\<close> describes.
\<close>

lemma mem_conc: "w \<in> conc A B \<longleftrightarrow> (\<exists>x \<in> A. \<exists>y \<in> B. w = x @ y)"
  by (auto simp: conc_def)

lemma set_step: "set (step f ss) = (\<Union>s \<in> set ss. set (f s))"
  by (simp add: step_def)

lemma set_funpow_step:
  assumes "\<And>s. set (f s) = {t. \<exists>p \<in> L. s = p @ t}"
  shows "set ((step f ^^ n) ss) = {t. \<exists>s \<in> set ss. \<exists>p \<in> pow L n. s = p @ t}"
proof (induction n arbitrary: ss)
  case 0
  show ?case by auto
next
  case (Suc n)
  have "(step f ^^ Suc n) ss = (step f ^^ n) (step f ss)"
    by (simp add: funpow_swap1)
  have "set ((step f ^^ Suc n) ss)
      = {t. \<exists>s' \<in> set (step f ss). \<exists>p \<in> pow L n. s' = p @ t}"
    unfolding \<open>(step f ^^ Suc n) ss = (step f ^^ n) (step f ss)\<close> by (rule Suc)
  also have "\<dots> = {t. \<exists>s \<in> set ss. \<exists>p \<in> pow L (Suc n). s = p @ t}"
  proof (intro set_eqI iffI)
    fix t assume "t \<in> {t. \<exists>s' \<in> set (step f ss). \<exists>p \<in> pow L n. s' = p @ t}"
    then obtain s' p where a: "s' \<in> set (step f ss)" "p \<in> pow L n" "s' = p @ t" by blast
    from a(1) obtain s q where b: "s \<in> set ss" "q \<in> L" "s = q @ s'"
      unfolding set_step assms by blast
    have "q @ p \<in> pow L (Suc n)" using b(2) a(2) by (auto simp: mem_conc)
    moreover have "s = (q @ p) @ t" using a(3) b(3) by simp
    ultimately show "t \<in> {t. \<exists>s \<in> set ss. \<exists>p \<in> pow L (Suc n). s = p @ t}"
      using b(1) by blast
  next
    fix t assume "t \<in> {t. \<exists>s \<in> set ss. \<exists>p \<in> pow L (Suc n). s = p @ t}"
    then obtain s p where a: "s \<in> set ss" "p \<in> pow L (Suc n)" "s = p @ t" by blast
    from a(2) obtain q p' where b: "q \<in> L" "p' \<in> pow L n" "p = q @ p'"
      by (auto simp: mem_conc)
    have "p' @ t \<in> set (f s)" unfolding assms using a(3) b(1,3) by auto
    then have "p' @ t \<in> set (step f ss)" unfolding set_step using a(1) by blast
    then show "t \<in> {t. \<exists>s' \<in> set (step f ss). \<exists>p \<in> pow L n. s' = p @ t}"
      using b(2) by blast
  qed
  finally show ?case .
qed

lemma pow_short:
  "p \<in> pow L (Suc n) \<Longrightarrow> \<exists>k \<le> length p. p \<in> pow L (Suc k)"
proof (induction n arbitrary: p)
  case 0
  then show ?case by blast
next
  case (Suc n)
  from Suc.prems obtain q p' where p: "p = q @ p'" "q \<in> L" "p' \<in> pow L (Suc n)"
    by (auto simp: mem_conc)
  from Suc.IH [OF p(3)] obtain k where k: "k \<le> length p'" "p' \<in> pow L (Suc k)" by blast
  show ?case
  proof (cases "q = []")
    case True
    with p k show ?thesis by auto
  next
    case False
    then have "Suc k \<le> length p" using p(1) k(1) by (cases q) auto
    moreover have "p \<in> conc L (pow L (Suc k))" unfolding mem_conc using p(1,2) k(2) by blast
    then have "p \<in> pow L (Suc (Suc k))" by simp
    ultimately show ?thesis by blast
  qed
qed

lemma class_split:
  "(\<exists>p \<in> {[d] | d. P d}. c # t = p @ u) \<longleftrightarrow> P c \<and> u = t"
proof
  assume "\<exists>p \<in> {[d] | d. P d}. c # t = p @ u"
  then obtain d where "P d" "c # t = [d] @ u" by blast
  then show "P c \<and> u = t" by simp
next
  assume "P c \<and> u = t"
  then have "[c] \<in> {[d] | d. P d}" "c # t = [c] @ u" by auto
  then show "\<exists>p \<in> {[d] | d. P d}. c # t = p @ u" by blast
qed

lemma class_nil: "\<not> (\<exists>p \<in> {[d] | d. P d}. [] = p @ u)"
  by auto

lemma rests_class:
  "set (case s of [] \<Rightarrow> [] | c # t \<Rightarrow> if \<not> P c then [] else [t])
     = {t. \<exists>p \<in> {[c] | c. P c}. s = p @ t}"
proof (cases s)
  case Nil
  show ?thesis unfolding Nil class_nil by simp
next
  case (Cons c t)
  show ?thesis unfolding Cons class_split by simp
qed

lemma rests_dot: "set (rests Dot s) = {t. \<exists>p \<in> lang Dot. s = p @ t}"
  using rests_class [where s = s and P = "\<lambda>c. c \<noteq> CHR 0x0A"] by simp

lemma rests_noneof: "set (rests (NoneOf cs) s) = {t. \<exists>p \<in> lang (NoneOf cs). s = p @ t}"
  using rests_class [where s = s and P = "\<lambda>c. c \<notin> set cs"] by simp


lemma rests_lit: "set (rests (Lit l) s) = {t. \<exists>p \<in> lang (Lit l). s = p @ t}"
proof -
  have "take (length l) s = l \<longleftrightarrow> (\<exists>t. s = l @ t)"
    by (metis append_eq_conv_conj append_take_drop_id)
  then show ?thesis by auto
qed

lemma rests_seq:
  assumes a: "\<And>s. set (rests a s) = {t. \<exists>p \<in> lang a. s = p @ t}"
      and b: "\<And>s. set (rests b s) = {t. \<exists>p \<in> lang b. s = p @ t}"
  shows "set (rests (Seq a b) s) = {t. \<exists>p \<in> lang (Seq a b). s = p @ t}"
proof (intro set_eqI iffI)
  fix t assume "t \<in> set (rests (Seq a b) s)"
  then have "t \<in> (\<Union>s' \<in> set (rests a s). set (rests b s'))" by (simp add: set_step)
  then obtain s' where "s' \<in> set (rests a s)" "t \<in> set (rests b s')" by blast
  then obtain p q where "p \<in> lang a" "s = p @ s'" "q \<in> lang b" "s' = q @ t"
    unfolding a b by blast
  then have "p @ q \<in> conc (lang a) (lang b)" "s = (p @ q) @ t"
    unfolding mem_conc by auto
  then have "\<exists>p \<in> lang (Seq a b). s = p @ t" unfolding lang.simps by blast
  then show "t \<in> {t. \<exists>p \<in> lang (Seq a b). s = p @ t}" by simp
next
  fix t assume "t \<in> {t. \<exists>p \<in> lang (Seq a b). s = p @ t}"
  then obtain r where "r \<in> conc (lang a) (lang b)" "s = r @ t" by auto
  then obtain p q where pq: "p \<in> lang a" "q \<in> lang b" "s = (p @ q) @ t"
    unfolding mem_conc by blast
  have "q @ t \<in> set (rests a s)" unfolding a using pq(1,3) by simp
  moreover have "t \<in> set (rests b (q @ t))" unfolding b using pq(2) by blast
  ultimately have "t \<in> (\<Union>s' \<in> set (rests a s). set (rests b s'))" by blast
  then show "t \<in> set (rests (Seq a b) s)" by (simp add: set_step)
qed

lemma rests_alt:
  assumes a: "\<And>s. set (rests a s) = {t. \<exists>p \<in> lang a. s = p @ t}"
      and b: "\<And>s. set (rests b s) = {t. \<exists>p \<in> lang b. s = p @ t}"
  shows "set (rests (Alt a b) s) = {t. \<exists>p \<in> lang (Alt a b). s = p @ t}"
proof -
  have "set (rests (Alt a b) s) = set (rests a s) \<union> set (rests b s)" by simp
  also have "\<dots> = {t. \<exists>p \<in> lang a \<union> lang b. s = p @ t}" unfolding a b by blast
  finally show ?thesis by simp
qed

lemma rests_opt:
  assumes a: "\<And>s. set (rests a s) = {t. \<exists>p \<in> lang a. s = p @ t}"
  shows "set (rests (Opt a) s) = {t. \<exists>p \<in> lang (Opt a). s = p @ t}"
proof -
  have "set (rests (Opt a) s) = set (rests a s) \<union> {s}" by simp
  also have "\<dots> = {t. \<exists>p \<in> insert [] (lang a). s = p @ t}" unfolding a by auto
  finally show ?thesis by simp
qed

lemma rests_plus:
  assumes a: "\<And>s. set (rests a s) = {t. \<exists>p \<in> lang a. s = p @ t}"
  shows "set (rests (Plus a) s) = {t. \<exists>p \<in> lang (Plus a). s = p @ t}"
proof -
  have f: "set ((step (rests a) ^^ n) [s]) = {t. \<exists>p \<in> pow (lang a) n. s = p @ t}" for n
    using set_funpow_step [of "rests a" "lang a" n "[s]", OF a] by simp
  have g: "set (rests (Plus a) s)
            = (\<Union>k \<in> {0..<Suc (length s)}. set ((step (rests a) ^^ Suc k) [s]))"
    by (simp del: funpow.simps upt_Suc)
  have h: "(\<exists>p \<in> lang (Plus a). s = p @ t) \<longleftrightarrow> (\<exists>n. \<exists>p \<in> pow (lang a) (Suc n). s = p @ t)"
    for t
    by (simp only: lang.simps UN_iff bex_UNIV) blast
  show ?thesis
  proof (intro set_eqI iffI)
    fix t
    assume "t \<in> set (rests (Plus a) s)"
    then obtain k where "t \<in> set ((step (rests a) ^^ Suc k) [s])" unfolding g by blast
    then have "\<exists>p \<in> pow (lang a) (Suc k). s = p @ t" unfolding f by simp
    then have "\<exists>p \<in> lang (Plus a). s = p @ t" unfolding h by blast
    then show "t \<in> {t. \<exists>p \<in> lang (Plus a). s = p @ t}" by simp
  next
    fix t
    assume "t \<in> {t. \<exists>p \<in> lang (Plus a). s = p @ t}"
    then have "\<exists>p \<in> lang (Plus a). s = p @ t" by simp
    then obtain p n where p: "p \<in> pow (lang a) (Suc n)" "s = p @ t" unfolding h by blast
    from pow_short [OF p(1)] obtain k where k: "k \<le> length p" "p \<in> pow (lang a) (Suc k)"
      by blast
    have "t \<in> set ((step (rests a) ^^ Suc k) [s])" unfolding f using k(2) p(2) by blast
    moreover have "k \<in> {0..<Suc (length s)}" using k(1) p(2) by simp
    ultimately show "t \<in> set (rests (Plus a) s)" unfolding g by blast
  qed
qed

lemma rests_times:
  assumes a: "\<And>s. set (rests a s) = {t. \<exists>p \<in> lang a. s = p @ t}"
  shows "set (rests (Times a n) s) = {t. \<exists>p \<in> lang (Times a n). s = p @ t}"
  using set_funpow_step [of "rests a" "lang a" n "[s]", OF a] by simp

lemma set_rests: "set (rests r s) = {t. \<exists>p \<in> lang r. s = p @ t}"
proof (induction r arbitrary: s)
  case (Lit l)
  show ?case by (rule rests_lit)
next
  case Dot
  show ?case by (rule rests_dot)
next
  case (NoneOf cs)
  show ?case by (rule rests_noneof)
next
  case (Seq a b)
  show ?case by (rule rests_seq) (rule Seq)+
next
  case (Alt a b)
  show ?case by (rule rests_alt) (rule Alt)+
next
  case (Opt a)
  show ?case by (rule rests_opt) (rule Opt)
next
  case (Plus a)
  show ?case by (rule rests_plus) (rule Plus)
next
  case (Times a n)
  show ?case by (rule rests_times) (rule Times)
qed

lemma re_match_iff: "re_match r s \<longleftrightarrow> (\<exists>p t. p \<in> lang r \<and> s = p @ t)"
proof -
  have "re_match r s \<longleftrightarrow> set (rests r s) \<noteq> {}" by (simp add: re_match_def)
  then show ?thesis unfolding set_rests by blast
qed

lemma pow_class:
  "pow {[c] | c. P c} n = {w. length w = n \<and> (\<forall>c \<in> set w. P c)}"
proof (induction n)
  case 0
  show ?case by auto
next
  case (Suc n)
  show ?case
  proof (intro set_eqI iffI)
    fix w assume "w \<in> pow {[c] | c. P c} (Suc n)"
    then obtain x y where "x \<in> {[c] | c. P c}" "y \<in> pow {[c] | c. P c} n" "w = x @ y"
      unfolding pow.simps mem_conc by blast
    then obtain c where "P c" "w = c # y" "length y = n" "\<forall>d \<in> set y. P d"
      unfolding Suc by auto
    then show "w \<in> {w. length w = Suc n \<and> (\<forall>c \<in> set w. P c)}" by simp
  next
    fix w assume "w \<in> {w. length w = Suc n \<and> (\<forall>c \<in> set w. P c)}"
    then obtain c v where v: "w = c # v" "P c" "length v = n" "\<forall>c \<in> set v. P c"
      by (cases w) auto
    have "[c] \<in> {[c] | c. P c}" using v(2) by blast
    moreover have "v \<in> pow {[c] | c. P c} n" unfolding Suc using v(3,4) by simp
    moreover have "w = [c] @ v" using v(1) by simp
    ultimately have "w \<in> conc {[c] | c. P c} (pow {[c] | c. P c} n)"
      unfolding mem_conc by blast
    then show "w \<in> pow {[c] | c. P c} (Suc n)" by simp
  qed
qed

lemma lang_plus_dot: "p \<in> lang (Plus Dot) \<longleftrightarrow> p \<noteq> [] \<and> CHR 0x0A \<notin> set p"
proof -
  have "p \<in> lang (Plus Dot) \<longleftrightarrow> (\<exists>n. p \<in> pow {[c] | c. c \<noteq> CHR 0x0A} (Suc n))"
    by (simp only: lang.simps UN_iff bex_UNIV)
  also have "\<dots> \<longleftrightarrow> (\<exists>n. length p = Suc n \<and> (\<forall>c \<in> set p. c \<noteq> CHR 0x0A))"
    unfolding pow_class by simp
  also have "\<dots> \<longleftrightarrow> p \<noteq> [] \<and> CHR 0x0A \<notin> set p"
    by (cases p) auto
  finally show ?thesis .
qed

lemma lang_token:
  "p \<in> lang (Times (NoneOf ''&=%?'') 11) \<longleftrightarrow>
     length p = 11 \<and> set p \<inter> {CHR ''&'', CHR ''='', CHR ''%'', CHR ''?''} = {}"
proof -
  have "lang (Times (NoneOf ''&=%?'') 11) = {w. length w = 11 \<and> (\<forall>c \<in> set w. c \<notin> set ''&=%?'')}"
    unfolding lang.simps pow_class ..
  then show ?thesis by auto
qed


lemma in_conc: "w \<in> conc A B \<longleftrightarrow> (\<exists>x y. x \<in> A \<and> y \<in> B \<and> w = x @ y)"
  unfolding conc_def by blast

lemma lang_scheme:
  "x \<in> lang (Opt (Seq (Lit ''http'') (Seq (Opt (Lit ''s'')) (Lit ''://''))))
     \<longleftrightarrow> x \<in> {'''', ''http://'', ''https://''}"
  by (auto simp: in_conc)

lemma lang_www: "x \<in> lang (Opt (Lit ''www.'')) \<longleftrightarrow> x \<in> {'''', ''www.''}"
  by simp

lemma lang_host:
  "x \<in> lang (Alt (Lit ''youtube'') (Alt (Lit ''youtu'') (Lit ''youtube-nocookie'')))
     \<longleftrightarrow> x \<in> {''youtube'', ''youtu'', ''youtube-nocookie''}"
  by auto

lemma lang_tld: "x \<in> lang (Alt (Lit ''com'') (Lit ''be'')) \<longleftrightarrow> x \<in> {''com'', ''be''}"
  by auto

lemma lang_path:
  "x \<in> lang (Opt (Alt (Lit ''watch?v='') (Alt (Lit ''embed/'') (Alt (Lit ''v/'')
            (Alt (Lit ''shorts/'') (Seq (Plus Dot) (Lit ''?v='')))))))
     \<longleftrightarrow> x \<in> {'''', ''watch?v='', ''embed/'', ''v/'', ''shorts/''}
          \<or> (\<exists>pre. pre \<noteq> [] \<and> CHR 0x0A \<notin> set pre \<and> x = pre @ ''?v='')"
proof -
  have "x \<in> conc (lang (Plus Dot)) {''?v=''}
          \<longleftrightarrow> (\<exists>pre. pre \<noteq> [] \<and> CHR 0x0A \<notin> set pre \<and> x = pre @ ''?v='')"
    unfolding in_conc lang_plus_dot by blast
  then show ?thesis
    by (simp only: lang.simps(1,4,5,6) Un_iff insert_iff empty_iff) blast
qed

lemma lang_seq: "p \<in> lang (Seq a b) \<longleftrightarrow> (\<exists>x y. x \<in> lang a \<and> y \<in> lang b \<and> p = x @ y)"
  by (simp add: in_conc)

lemma lang_seq8:
  "p \<in> lang (Seq a (Seq b (Seq c (Seq (Lit d) (Seq e (Seq (Lit f) (Seq g h)))))))
     \<longleftrightarrow> (\<exists>xa xb xc xe xg xh.
            p = xa @ xb @ xc @ d @ xe @ f @ xg @ xh
          \<and> xa \<in> lang a \<and> xb \<in> lang b \<and> xc \<in> lang c \<and> xe \<in> lang e \<and> xg \<in> lang g
          \<and> xh \<in> lang h)"
  unfolding lang_seq lang.simps(1) singleton_iff by blast

lemma lang_youtube: "p \<in> lang YOUTUBE_REGEX \<longleftrightarrow> accepted_prefix p"
  unfolding YOUTUBE_REGEX_def lang_seq8 lang_scheme lang_www lang_host lang_tld lang_path
    lang_token accepted_prefix_def
  by (rule refl)

lemma not_accepted_nil: "\<not> accepted_prefix []"
  unfolding accepted_prefix_def by simp

lemma re_match_youtube:
  "re_match YOUTUBE_REGEX s \<longleftrightarrow> (\<exists>p rest. s = p @ rest \<and> accepted_prefix p)"
  unfolding re_match_iff lang_youtube by blast

section \<open>The validator on absent input\<close>

lemma not_match_empty: "\<not> re_match YOUTUBE_REGEX []"
  by (simp add: re_match_def YOUTUBE_REGEX_def step_def)

text \<open>
  C9: the URL validator is total on absent input.  Called with \<open>None\<close>, or with the
  other falsy value of its argument type, the empty string, it coerces the input to the
  empty string before matching and returns false; no branch of it raises.
\<close>

theorem is_valid_youtube_url_falsy:
  "falsy u \<Longrightarrow> opt_str_or u '''' = '''' \<and> is_valid_youtube_url u = False"
  by (auto simp: falsy_def is_valid_youtube_url_def opt_str_or_def str_or_def not_match_empty)

theorem is_valid_youtube_url_falsy_witness:
  "falsy None \<and> opt_str_or None '''' = '''' \<and> is_valid_youtube_url None = False"
  using is_valid_youtube_url_falsy [of None] by (simp add: falsy_def)

section \<open>The URL validator on strings\<close>

text \<open>
  C3 as stated: the validator returns true if and only if the string matches an anchored
  pattern of a recognised host, one of the path shapes and an 11-character token; in
  particular it returns false for a token of length 10 or 12.  It fails: \<open>.match\<close>
  anchors the pattern at the start of the string only and the path group is optional.  A
  watch URL with a 12-character token is accepted, its first eleven characters being the
  token, and so is an embed URL with a 10-character token, where \<open>embed/dQw4w\<close> is
  taken for the token.
\<close>

theorem long_and_short_tokens_accepted:
  "is_valid_youtube_url (Some ''https://www.youtube.com/watch?v=dQw4w9WgXcQQ'')
   \<and> is_valid_youtube_url (Some ''https://www.youtube.com/embed/dQw4w9WgXc'')"
  by code_simp

text \<open>
  C3 as amended: the validator returns true if and only if its argument is a string that
  starts with an accepted prefix: an optional \<open>http://\<close> or \<open>https://\<close>, an optional
  \<open>www.\<close>, one of the hosts \<open>youtube\<close>, \<open>youtu\<close>, \<open>youtube-nocookie\<close>, a dot,
  \<open>com\<close> or \<open>be\<close>, a slash, optionally one of \<open>watch?v=\<close>, \<open>embed/\<close>, \<open>v/\<close>,
  \<open>shorts/\<close> or any non-empty run without a line feed followed by \<open>?v=\<close>, and then
  eleven characters none of which is \<open>&\<close>, \<open>=\<close>, \<open>%\<close> or \<open>?\<close>.  What follows the
  prefix is not looked at.  It returns false for the empty string, for \<open>watch?v=\<close>
  followed by ten characters only, and for a host outside the list.
\<close>

theorem is_valid_youtube_url_prefix:
  "(is_valid_youtube_url u \<longleftrightarrow>
      (\<exists>s p rest. u = Some s \<and> s = p @ rest \<and> accepted_prefix p))
   \<and> \<not> is_valid_youtube_url (Some '''')
   \<and> \<not> is_valid_youtube_url (Some ''https://www.youtube.com/watch?v=dQw4w9WgXc'')
   \<and> \<not> is_valid_youtube_url (Some ''https://vimeo.com/watch?v=dQw4w9WgXcQ'')"
proof -
  have a: "is_valid_youtube_url u \<longleftrightarrow>
             (\<exists>s p rest. u = Some s \<and> s = p @ rest \<and> accepted_prefix p)"
  proof (cases u)
    case None
    then show ?thesis
      by (simp add: is_valid_youtube_url_def opt_str_or_def re_match_youtube not_accepted_nil)
  next
    case (Some s)
    then show ?thesis
      by (cases "s = []")
         (simp_all add: is_valid_youtube_url_def opt_str_or_def str_or_def re_match_youtube
            not_accepted_nil)
  qed
  have b: "\<not> is_valid_youtube_url (Some '''')"
    by code_simp
  have c: "\<not> is_valid_youtube_url (Some ''https://www.youtube.com/watch?v=dQw4w9WgXc'')"
    by code_simp
  have d: "\<not> is_valid_youtube_url (Some ''https://vimeo.com/watch?v=dQw4w9WgXcQ'')"
    by code_simp
  from a b c d show ?thesis by blast
qed

theorem is_valid_youtube_url_prefix_witness:
  "is_valid_youtube_url (Some ''https://youtu.be/dQw4w9WgXcQ?t=42'')
   \<and> (\<exists>p rest. ''https://youtu.be/dQw4w9WgXcQ?t=42'' = p @ rest \<and> accepted_prefix p)"
proof -
  have v: "is_valid_youtube_url (Some ''https://youtu.be/dQw4w9WgXcQ?t=42'')"
    by code_simp
  have "is_valid_youtube_url (Some ''https://youtu.be/dQw4w9WgXcQ?t=42'') \<longleftrightarrow>
          (\<exists>s p rest. Some ''https://youtu.be/dQw4w9WgXcQ?t=42'' = Some s \<and> s = p @ rest
             \<and> accepted_prefix p)"
    using is_valid_youtube_url_prefix [of "Some ''https://youtu.be/dQw4w9WgXcQ?t=42''"]
    by (rule conjunct1)
  with v show ?thesis by simp
qed

section \<open>The download file name\<close>

lemma strip_video: "strip ''video'' = ''video''"
  by (simp add: strip_def py_isspace_def)

lemma safe_video: "re_sub_class HOSTILE (CHR ''_'') ''video'' = ''video''"
  by (simp add: re_sub_class_def HOSTILE_def)

text \<open>
  C10: when the metadata of the extraction engine has a missing, null or empty title, the
  base of the download file name is the literal string \<open>video\<close>, which sanitization
  leaves unchanged, and the extension is appended to it.
\<close>

theorem download_name_default_title:
  "info_title i = None \<or> info_title i = Some '''' \<Longrightarrow>
     title_of i = ''video'' \<and> safe_title_of i = ''video'' \<and>
     download_name i p = ''video.'' @ ext_of p"
  by (auto simp: title_of_def safe_title_of_def download_name_def opt_str_or_def str_or_def
        strip_video safe_video)

theorem download_name_default_title_witness:
  "download_name \<lparr>info_id = None, info_title = None, info_duration = None,
                   info_uploader = None, info_thumbnail = None, info_thumbnails = None,
                   info_formats = None\<rparr> ''downloads/abc.webm'' = ''video.webm''"
  using download_name_default_title
    [of "\<lparr>info_id = None, info_title = None, info_duration = None,
          info_uploader = None, info_thumbnail = None, info_thumbnails = None,
          info_formats = None\<rparr>" "''downloads/abc.webm''"]
  by (simp add: ext_of_def os_path_splitext_def str_or_def lstrip_chars_def)

lemma splitext_ext_shape:
  "snd (os_path_splitext p) = [] \<or>
   (\<exists>x. snd (os_path_splitext p) = CHR ''.'' # x \<and> CHR ''.'' \<notin> set x)"
proof -
  let ?P = "\<lambda>c. c \<noteq> CHR ''.'' \<and> c \<noteq> CHR ''/''"
  have "CHR ''.'' \<notin> set (rev (takeWhile ?P (rev p)))"
    using set_takeWhileD [of "CHR ''.''" ?P "rev p"] by auto
  then show ?thesis
    by (auto simp: os_path_splitext_def Let_def split: list.splits)
qed

lemma lstrip_dot: "CHR ''.'' \<notin> set x \<Longrightarrow> lstrip_chars ''.'' (CHR ''.'' # x) = x"
  by (cases x) (auto simp: lstrip_chars_def)

lemma ext_of_cases:
  "ext_of p = (if snd (os_path_splitext p) = [] \<or> snd (os_path_splitext p) = ''.''
               then ''mp4'' else tl (snd (os_path_splitext p)))"
  using splitext_ext_shape [of p]
  by (auto simp: ext_of_def str_or_def lstrip_dot) (simp_all add: lstrip_chars_def)

text \<open>
  C6 as stated: the safe download file name is the metadata title with every occurrence of
  one of the characters \<open>/ * ? : " < > |\<close> and the backslash replaced by an underscore, followed by the
  extension of the resolved file, or \<open>mp4\<close> when the resolved path has none.  It fails for
  a title with white space at either end: the title is trimmed first.
\<close>

theorem download_name_trims_title:
  "download_name (info_titled (Some '' My:Video'')) OUT_MP4
     \<noteq> re_sub_class HOSTILE (CHR ''_'') '' My:Video'' @ ''.'' @ ''mp4''"
  by (simp add: download_name_def safe_title_of_def title_of_def info_titled_def opt_str_or_def
        str_or_def strip_def py_isspace_def re_sub_class_def HOSTILE_def)

lemma download_name_trimmed_value: "download_name (info_titled (Some '' My:Video'')) OUT_MP4 = ''My_Video.mp4''"
  by (simp add: download_name_def safe_title_of_def title_of_def info_titled_def opt_str_or_def
        str_or_def strip_def py_isspace_def re_sub_class_def HOSTILE_def ext_of_def
        os_path_splitext_def OUT_MP4_def lstrip_chars_def)

text \<open>
  C6 as amended: the safe download file name is the metadata title, trimmed of leading and
  trailing white space, with every occurrence of one of the characters
  \<open>/ * ? : " < > |\<close> and the backslash replaced by an underscore, then a dot and the extension of the
  resolved file, or \<open>mp4\<close> when the resolved path has no extension; the title
  \<open>My:Video/Clip?\<close> becomes \<open>My_Video_Clip_\<close> before the extension is appended.
\<close>

theorem download_name_sanitized:
  assumes "info_title i = Some t" and "t \<noteq> []"
  shows "download_name i p =
           map (\<lambda>c. if c \<in> {CHR 0x5C, CHR ''/'', CHR ''*'', CHR ''?'', CHR '':'', CHR 0x22,
                              CHR ''<'', CHR ''>'', CHR ''|''}
                     then CHR ''_'' else c) (strip t)
           @ ''.''
           @ (if snd (os_path_splitext p) = [] \<or> snd (os_path_splitext p) = ''.''
              then ''mp4'' else tl (snd (os_path_splitext p)))
       \<and> (\<forall>base x. p = base @ ''.'' @ x \<and> x \<noteq> [] \<and> CHR ''.'' \<notin> set x \<and> CHR ''/'' \<notin> set x
              \<and> \<not> list_all (\<lambda>d. d = CHR ''.'') (takeWhile (\<lambda>d. d \<noteq> CHR ''/'') (rev base))
            \<longrightarrow> ext_of p = x)"
proof -
  have t: "title_of i = strip t"
    using assms by (simp add: title_of_def opt_str_or_def str_or_def)
  have h: "set HOSTILE = {CHR 0x5C, CHR ''/'', CHR ''*'', CHR ''?'', CHR '':'', CHR 0x22,
                              CHR ''<'', CHR ''>'', CHR ''|''}"
    by (simp add: HOSTILE_def)
  have n: "download_name i p =
           map (\<lambda>c. if c \<in> {CHR 0x5C, CHR ''/'', CHR ''*'', CHR ''?'', CHR '':'', CHR 0x22,
                              CHR ''<'', CHR ''>'', CHR ''|''}
                     then CHR ''_'' else c) (strip t)
           @ ''.''
           @ (if snd (os_path_splitext p) = [] \<or> snd (os_path_splitext p) = ''.''
              then ''mp4'' else tl (snd (os_path_splitext p)))"
    unfolding download_name_def safe_title_of_def re_sub_class_def t h ext_of_cases [of p] ..
  have e: "ext_of p = x"
    if "p = base @ ''.'' @ x" "x \<noteq> []" "CHR ''.'' \<notin> set x" "CHR ''/'' \<notin> set x"
       "\<not> list_all (\<lambda>d. d = CHR ''.'') (takeWhile (\<lambda>d. d \<noteq> CHR ''/'') (rev base))"
    for base x
    using splitext_replace [OF that(2,3,4,5)] that(1,2) by (simp add: ext_of_cases)
  show ?thesis using n e by blast
qed

theorem download_name_sanitized_witness:
  "download_name info0 OUT_MP4 = ''My_Video_Clip_.mp4''"
proof -
  have a: "info_title info0 = Some ''My:Video/Clip?''" by (simp add: info0_def info_titled_def)
  have b: "''My:Video/Clip?'' \<noteq> []" by simp
  have s: "snd (os_path_splitext OUT_MP4) = ''.mp4''"
    by (simp add: os_path_splitext_def OUT_MP4_def)
  from download_name_sanitized [OF a b, of OUT_MP4] show ?thesis
    by (simp add: s strip_def py_isspace_def)
qed

section \<open>The missing remux binary\<close>

text \<open>
  C7: if the probe of the remux binary fails, the download operation answers HTTP 500
  with a message that asks to install ffmpeg, and it does so before a job identifier is
  allocated, an output path built or a file created: the probe is the only call made and
  the files are as they were.
\<close>

theorem download_ffmpeg_missing:
  assumes "download e args w = (resp, fs, w')"
    and "Subprocess_run [''ffmpeg'', ''-version''] \<in> set (new_calls w w')"
    and "\<not> ffmpeg_runs e"
  shows "resp = Error_json FFMPEG_MISSING 500
       \<and> suffix ''Please install ffmpeg.'' FFMPEG_MISSING
       \<and> fs = []
       \<and> new_calls w w' = [Subprocess_run [''ffmpeg'', ''-version'']]
       \<and> files w' = files w"
proof -
  define url where "url = strip (args_get args ''url'' '''')"
  have ran: "url \<noteq> [] \<and> is_valid_youtube_url (Some url)"
  proof (rule ccontr)
    assume "\<not> ?thesis"
    then have "url = [] \<or> \<not> is_valid_youtube_url (Some url)" by blast
    from download_rejects [OF url_def [symmetric] this, of e w] assms(1)
    have "w' = w" by auto
    with assms(2) show False by (simp add: new_calls_self)
  qed
  from download_no_ffmpeg [OF url_def [symmetric] _ _ assms(3), of w] ran assms(1)
  have r: "resp = Error_json FFMPEG_MISSING 500" "fs = []"
    "w' = called (Subprocess_run [''ffmpeg'', ''-version'']) w"
    by auto
  have s: "suffix ''Please install ffmpeg.'' FFMPEG_MISSING"
    by (simp add: FFMPEG_MISSING_def suffix_def)
  show ?thesis using r s by (simp add: new_calls_called) (simp add: called_def)
qed

theorem download_ffmpeg_missing_witness:
  "download (env0\<lparr>ffmpeg_runs := False\<rparr>) args0 w0 =
     (Error_json FFMPEG_MISSING 500, [], \<lparr>files = {}, calls = [Subprocess_run [''ffmpeg'', ''-version'']]\<rparr>)
   \<and> new_calls w0 \<lparr>files = {}, calls = [Subprocess_run [''ffmpeg'', ''-version'']]\<rparr>
       = [Subprocess_run [''ffmpeg'', ''-version'']]"
proof -
  have d: "download (env0\<lparr>ffmpeg_runs := False\<rparr>) args0 w0 =
     (Error_json FFMPEG_MISSING 500, [], \<lparr>files = {}, calls = [Subprocess_run [''ffmpeg'', ''-version'']]\<rparr>)"
    using download_no_ffmpeg [OF args0_url URL0_not_nil valid_short, of "env0\<lparr>ffmpeg_runs := False\<rparr>" w0]
    by (simp add: env0_def called_def w0_def)
  have n: "Subprocess_run [''ffmpeg'', ''-version'']
      \<in> set (new_calls w0 \<lparr>files = {}, calls = [Subprocess_run [''ffmpeg'', ''-version'']]\<rparr>)"
    by (simp add: new_calls_def w0_def)
  have f: "\<not> ffmpeg_runs (env0\<lparr>ffmpeg_runs := False\<rparr>)" by simp
  from download_ffmpeg_missing [OF d n f] d show ?thesis by simp
qed

section \<open>The effective format specification\<close>

text \<open>
  C8: for every download request that gets as far as a job (the URL is accepted and the
  remux binary is there), the job calls the extraction engine once, and the format
  specification it calls it with is the caller's \<open>format_id\<close>, trimmed of white space,
  when it is present and not empty after trimming, and the default
  \<open>bestvideo+bestaudio/best\<close> otherwise.  The calls of the request start with the probe,
  the job identifier and that engine call, and no other engine call follows.
\<close>

theorem download_format_spec:
  assumes "strip (args_get args ''url'' '''') = url" "url \<noteq> []"
    and "is_valid_youtube_url (Some url)"
    and "ffmpeg_runs e"
    and "spec = (case args ''format_id'' of
                   None \<Rightarrow> ''bestvideo+bestaudio/best''
                 | Some v \<Rightarrow> if strip v \<noteq> [] then strip v else ''bestvideo+bestaudio/best'')"
    and "download e args w = (resp, fs, w')"
  shows "(\<exists>rest.
            new_calls w w' =
              [Subprocess_run [''ffmpeg'', ''-version''], Uuid4,
               Extract_info
                 (download_opts (os_path_join (DOWNLOAD_FOLDER e) (uuid4_hex e @ ''.%(ext)s'')) spec)
                 url True] @ rest
          \<and> (\<forall>c \<in> set rest. \<forall>o' u' d'. c \<noteq> Extract_info o' u' d'))
       \<and> map_of (download_opts (os_path_join (DOWNLOAD_FOLDER e) (uuid4_hex e @ ''.%(ext)s'')) spec)
           ''format'' = Some (OStr spec)"
proof -
  have s: "format_spec_of (strip (args_get args ''format_id'' '''')) = spec"
    by (simp add: assms(5) format_spec_of_def DEFAULT_FORMAT_def args_get_def strip_nil
          split: option.splits)
  define o1 where
    "o1 = download_opts (os_path_join (DOWNLOAD_FOLDER e) (uuid4_hex e @ ''.%(ext)s'')) spec"
  define w2 where "w2 = called Uuid4 (called (Subprocess_run [''ffmpeg'', ''-version'']) w)"
  have dj: "download e args w = download_job e url o1 w2"
    using download_reaches_job [OF assms(1,2,3,4), of w] by (simp add: o1_def s w2_def)
  have w': "w' = snd (snd (download e args w))" using assms(6) by simp
  from download_job_calls [of e url o1 w2] obtain rest where
    c: "calls (snd (snd (download_job e url o1 w2))) = calls w2 @ Extract_info o1 url True # rest"
    and nr: "\<forall>c \<in> set rest. \<forall>o' u' d'. c \<noteq> Extract_info o' u' d'"
    by blast
  from c dj w' have "calls w' = calls w2 @ Extract_info o1 url True # rest" by simp
  then have n: "new_calls w w' =
      [Subprocess_run [''ffmpeg'', ''-version''], Uuid4, Extract_info o1 url True] @ rest"
    by (simp add: new_calls_def w2_def called_def)
  have m: "map_of o1 ''format'' = Some (OStr spec)"
    by (simp add: o1_def download_opts_def)
  from n nr m show ?thesis unfolding o1_def by blast
qed

theorem download_format_spec_witness:
  "download env0 args_137 w0 =
     (Attachment OUT_MP4 ''My_Video_Clip_.mp4'', [remove_file env0 OUT_MP4],
      \<lparr>files = {OUT_MP4},
       calls = [Subprocess_run [''ffmpeg'', ''-version''], Uuid4,
                Extract_info (download_opts OUTTMPL0 ''137'') URL0 True,
                Path_exists OUT_WEBM, Path_exists OUT_MP4, Path_exists OUT_MP4,
                Send_file OUT_MP4 ''My_Video_Clip_.mp4'']\<rparr>)
   \<and> (\<exists>rest. new_calls w0 \<lparr>files = {OUT_MP4},
         calls = [Subprocess_run [''ffmpeg'', ''-version''], Uuid4,
                  Extract_info (download_opts OUTTMPL0 ''137'') URL0 True,
                  Path_exists OUT_WEBM, Path_exists OUT_MP4, Path_exists OUT_MP4,
                  Send_file OUT_MP4 ''My_Video_Clip_.mp4'']\<rparr>
        = [Subprocess_run [''ffmpeg'', ''-version''], Uuid4,
           Extract_info (download_opts OUTTMPL0 ''137'') URL0 True] @ rest)
   \<and> map_of (download_opts OUTTMPL0 ''137'') ''format'' = Some (OStr ''137'')
   \<and> (\<exists>rest. new_calls w0 (snd (snd (download env0 args0 w0)))
        = [Subprocess_run [''ffmpeg'', ''-version''], Uuid4,
           Extract_info (download_opts OUTTMPL0 ''bestvideo+bestaudio/best'') URL0 True] @ rest)"
proof -
  have f: "ffmpeg_runs env0" by (simp add: env0_def)
  have s: "''137'' = (case args_137 ''format_id'' of
                        None \<Rightarrow> ''bestvideo+bestaudio/best''
                      | Some v \<Rightarrow> if strip v \<noteq> [] then strip v else ''bestvideo+bestaudio/best'')"
    by (simp add: args_137_format(1) strip_137)
  have o: "os_path_join (DOWNLOAD_FOLDER env0) (uuid4_hex env0 @ ''.%(ext)s'') = OUTTMPL0"
    by (simp add: env0_def outtmpl0)
  have s0: "''bestvideo+bestaudio/best'' = (case args0 ''format_id'' of
                        None \<Rightarrow> ''bestvideo+bestaudio/best''
                      | Some v \<Rightarrow> if strip v \<noteq> [] then strip v else ''bestvideo+bestaudio/best'')"
    by (simp add: args0_format(1))
  have d0: "download env0 args0 w0
      = (fst (download env0 args0 w0), fst (snd (download env0 args0 w0)),
         snd (snd (download env0 args0 w0)))"
    by simp
  note t = download_format_spec [OF args_137_url URL0_not_nil valid_short f s download_env0_137]
  note t0 = download_format_spec [OF args0_url URL0_not_nil valid_short f s0 d0]
  from t [unfolded o] t0 [unfolded o] download_env0_137 show ?thesis by blast
qed

section \<open>Resolving the produced file\<close>

text \<open>
  C4: after a download-mode extraction that succeeds, if the path the engine reports does
  not exist the job controller tries exactly one other path, the reported one with its
  extension replaced by \<open>.mp4\<close>; if neither exists it answers HTTP 500 with the message
  \<open>File not found after download\<close>, and the engine has been called once only.
\<close>

theorem artifact_resolution:
  assumes "ydl_extract_info e ydl_opts url True (files w) = (Inr i, fs)"
    and "reported = ydl_prepare_filename e ydl_opts i"
    and "alt = fst (os_path_splitext reported) @ ''.mp4''"
    and "download_job e url ydl_opts w = (resp, cbs, w')"
  shows "(reported \<notin> fs \<and> alt \<notin> fs \<longrightarrow>
            resp = Error_json ''File not found after download'' 500 \<and> cbs = [] \<and>
            new_calls w w' = [Extract_info ydl_opts url True, Path_exists reported,
                              Path_exists alt, Path_exists reported])
       \<and> (reported \<notin> fs \<and> alt \<in> fs \<longrightarrow>
            new_calls w w' = [Extract_info ydl_opts url True, Path_exists reported,
                              Path_exists alt, Path_exists alt,
                              Send_file alt (download_name i alt)])
       \<and> (reported \<in> fs \<longrightarrow>
            new_calls w w' = [Extract_info ydl_opts url True, Path_exists reported,
                              Path_exists reported,
                              Send_file reported (download_name i reported)])
       \<and> (\<forall>base x. reported = base @ ''.'' @ x \<and> x \<noteq> [] \<and> CHR ''.'' \<notin> set x
              \<and> CHR ''/'' \<notin> set x
              \<and> \<not> list_all (\<lambda>d. d = CHR ''.'') (takeWhile (\<lambda>d. d \<noteq> CHR ''/'') (rev base))
            \<longrightarrow> alt = base @ ''.mp4'')"
proof -
  have c1: "resp = Error_json ''File not found after download'' 500 \<and> cbs = [] \<and>
            new_calls w w' = [Extract_info ydl_opts url True, Path_exists reported,
                              Path_exists alt, Path_exists reported]"
    if "reported \<notin> fs" "alt \<notin> fs"
    using download_job_missing [OF assms(1,2,3) that] assms(4) by (auto simp: new_calls_def)
  have c2: "new_calls w w' = [Extract_info ydl_opts url True, Path_exists reported,
                              Path_exists alt, Path_exists alt,
                              Send_file alt (download_name i alt)]"
    if "reported \<notin> fs" "alt \<in> fs"
    using download_job_found [OF assms(1,2,3), of alt] that assms(4)
    by (auto simp: new_calls_def)
  have c3: "new_calls w w' = [Extract_info ydl_opts url True, Path_exists reported,
                              Path_exists reported,
                              Send_file reported (download_name i reported)]"
    if "reported \<in> fs"
    using download_job_found [OF assms(1,2,3), of reported] that assms(4)
    by (auto simp: new_calls_def)
  have c4: "alt = base @ ''.mp4''"
    if "reported = base @ ''.'' @ x" "x \<noteq> []" "CHR ''.'' \<notin> set x" "CHR ''/'' \<notin> set x"
       "\<not> list_all (\<lambda>d. d = CHR ''.'') (takeWhile (\<lambda>d. d \<noteq> CHR ''/'') (rev base))"
    for base x
    using splitext_replace [OF that(2,3,4,5)] that(1) assms(3) by simp
  show ?thesis using c1 c2 c3 c4 by blast
qed

theorem artifact_resolution_witness:
  "OUT_WEBM \<notin> {OUT_MKV} \<and> OUT_MP4 \<notin> {OUT_MKV} \<and>
   download_job env_mkv URL0 (download_opts OUTTMPL0 ''bestvideo+bestaudio/best'')
       \<lparr>files = {}, calls = [Subprocess_run [''ffmpeg'', ''-version''], Uuid4]\<rparr> =
     (Error_json ''File not found after download'' 500, [],
      \<lparr>files = {OUT_MKV},
       calls = [Subprocess_run [''ffmpeg'', ''-version''], Uuid4,
                Extract_info (download_opts OUTTMPL0 ''bestvideo+bestaudio/best'') URL0 True,
                Path_exists OUT_WEBM, Path_exists OUT_MP4, Path_exists OUT_WEBM]\<rparr>)
   \<and> OUT_MP4 = ''downloads/0123456789abcdef0123456789abcdef'' @ ''.mp4''"
proof -
  have x: "ydl_extract_info env_mkv (download_opts OUTTMPL0 ''bestvideo+bestaudio/best'') URL0 True
      (files \<lparr>files = {}, calls = [Subprocess_run [''ffmpeg'', ''-version''], Uuid4]\<rparr>)
      = (Inr info0, {OUT_MKV})"
    by (simp add: env_mkv_def env0_def)
  have p: "OUT_WEBM = ydl_prepare_filename env_mkv (download_opts OUTTMPL0 ''bestvideo+bestaudio/best'') info0"
    by (simp add: env_mkv_def env0_def)
  have s: "OUT_WEBM = ''downloads/0123456789abcdef0123456789abcdef'' @ ''.'' @ ''webm''"
    by (simp add: OUT_WEBM_def)
  from artifact_resolution [OF x p alt_of_webm [symmetric] job_env_mkv] s
  show ?thesis
    using job_env_mkv out_distinct out_distinct [symmetric] by (simp add: OUT_MP4_def)
qed

section \<open>Cleaning up after the response\<close>

text \<open>
  C1 as stated: for every download job whose extraction step produces a file, the job
  controller deletes that file after the HTTP response finishes, whatever the outcome, so
  that no artifact of a job outlives its request.  It fails: the deletion is registered
  only for the resolved path, just before \<open>send_file\<close>.  Here the extraction succeeds
  and leaves a \<open>.mkv\<close> file while reporting \<open>.webm\<close>; neither that path nor the
  \<open>.mp4\<close> one exists, the answer is 500 and the file stays.
\<close>

theorem leftover_when_unresolved:
  "OUT_MKV \<notin> files w0
   \<and> ydl_extract_info env_mkv (download_opts OUTTMPL0 ''bestvideo+bestaudio/best'') URL0 True (files w0)
       = (Inr info0, {OUT_MKV})
   \<and> serve_download env_mkv args0 w0 =
       (Error_json ''File not found after download'' 500,
        \<lparr>files = {OUT_MKV},
         calls = [Subprocess_run [''ffmpeg'', ''-version''], Uuid4,
                  Extract_info (download_opts OUTTMPL0 ''bestvideo+bestaudio/best'') URL0 True,
                  Path_exists OUT_WEBM, Path_exists OUT_MP4, Path_exists OUT_WEBM]\<rparr>)"
proof -
  have d: "download env_mkv args0 w0 =
     download_job env_mkv URL0 (download_opts OUTTMPL0 ''bestvideo+bestaudio/best'')
       \<lparr>files = {}, calls = [Subprocess_run [''ffmpeg'', ''-version''], Uuid4]\<rparr>"
    by (rule download_sample) (simp_all add: env_mkv_def env0_def)
  show ?thesis
    by (simp add: serve_download_def d job_env_mkv run_none) (simp add: env_mkv_def env0_def w0_def)
qed

text \<open>
  The same happens when the engine raises after it has written a file: the \<open>except\<close>
  branch answers 500 and registers nothing.
\<close>

lemma leftover_when_engine_raises:
  "serve_download env_raise args0 w0 =
       (Error_json ''Download failed: ERROR: Postprocessing: Conversion failed!'' 500,
        \<lparr>files = {OUT_F137},
         calls = [Subprocess_run [''ffmpeg'', ''-version''], Uuid4,
                  Extract_info (download_opts OUTTMPL0 ''bestvideo+bestaudio/best'') URL0 True]\<rparr>)"
proof -
  have d: "download env_raise args0 w0 =
     download_job env_raise URL0 (download_opts OUTTMPL0 ''bestvideo+bestaudio/best'')
       \<lparr>files = {}, calls = [Subprocess_run [''ffmpeg'', ''-version''], Uuid4]\<rparr>"
    by (rule download_sample) (simp_all add: env_raise_def env0_def)
  show ?thesis
    unfolding serve_download_def d
    by (subst download_job_raises [where err = "''ERROR: Postprocessing: Conversion failed!''"
          and fs = "{OUT_F137}"])
       (simp_all add: env_raise_def env0_def run_none)
qed

text \<open>
  C1 as amended: for every download job whose extraction succeeds and whose reported path,
  or else its \<open>.mp4\<close> variant, exists, the job controller registers the deletion of
  that resolved file before it sends it, and the deletion runs once the view has returned,
  whether \<open>send_file\<close> returned or raised.  The file is then gone unless \<open>os.remove\<close>
  raises; in that case the error is printed, the file stays and the response is the one
  the view returned.
\<close>

theorem cleanup_of_resolved_file:
  assumes "strip (args_get args ''url'' '''') = url" "url \<noteq> []"
    and "is_valid_youtube_url (Some url)"
    and "ffmpeg_runs e"
    and "ydl_opts = download_opts (os_path_join (DOWNLOAD_FOLDER e) (uuid4_hex e @ ''.%(ext)s''))
                      (format_spec_of (strip (args_get args ''format_id'' '''')))"
    and "ydl_extract_info e ydl_opts url True (files w) = (Inr i, fs)"
    and "reported = ydl_prepare_filename e ydl_opts i"
    and "final = (if reported \<in> fs then reported else fst (os_path_splitext reported) @ ''.mp4'')"
    and "final \<in> fs"
  shows "\<exists>w'. serve_download e args w =
            ((case send_file_raises e final of
                None \<Rightarrow> Attachment final (download_name i final)
              | Some err \<Rightarrow> Error_json (''Download failed: '' @ err) 500), w')
          \<and> Os_remove final \<in> set (new_calls w w')
          \<and> (case os_remove_raises e final of
                None \<Rightarrow> files w' = fs - {final}
              | Some err \<Rightarrow> files w' = fs \<and> last (calls w') = Print (''Cleanup error: '' @ err))"
proof -
  define w2 where "w2 = called Uuid4 (called (Subprocess_run [''ffmpeg'', ''-version'']) w)"
  have f2: "files w2 = files w" by (simp add: w2_def called_def)
  have c2: "calls w2 = calls w @ [Subprocess_run [''ffmpeg'', ''-version''], Uuid4]"
    by (simp add: w2_def called_def)
  have dj: "download e args w = download_job e url ydl_opts w2"
    using download_reaches_job [OF assms(1,2,3,4), of w] assms(5) by (simp add: w2_def)
  note found = download_job_found [OF assms(6) [folded f2] assms(7) refl assms(8,9)]
  define w3 where "w3 = w2\<lparr>files := fs,
        calls := calls w2 @ [Extract_info ydl_opts url True, Path_exists reported]
                 @ (if reported \<in> fs then [] else [Path_exists (fst (os_path_splitext reported) @ ''.mp4'')])
                 @ [Path_exists final, Send_file final (download_name i final)]\<rparr>"
  have in3: "final \<in> files w3" using assms(9) by (simp add: w3_def)
  show ?thesis
  proof (cases "os_remove_raises e final")
    case None
    show ?thesis
      using None dj found remove_file_removes [OF in3 None]
      by (simp add: serve_download_def run_one w3_def new_calls_def c2)
  next
    case (Some err)
    show ?thesis
      using Some dj found remove_file_swallows [OF in3 Some]
      by (simp add: serve_download_def run_one w3_def new_calls_def c2)
  qed
qed

theorem cleanup_of_resolved_file_witness:
  "serve_download env0 args0 w0 =
     (Attachment OUT_MP4 ''My_Video_Clip_.mp4'',
      \<lparr>files = {},
       calls = [Subprocess_run [''ffmpeg'', ''-version''], Uuid4,
                Extract_info (download_opts OUTTMPL0 ''bestvideo+bestaudio/best'') URL0 True,
                Path_exists OUT_WEBM, Path_exists OUT_MP4, Path_exists OUT_MP4,
                Send_file OUT_MP4 ''My_Video_Clip_.mp4'', Path_exists OUT_MP4,
                Os_remove OUT_MP4]\<rparr>)
   \<and> OUT_MP4 \<in> snd (ydl_extract_info env0 (download_opts OUTTMPL0 ''bestvideo+bestaudio/best'') URL0 True (files w0))"
proof -
  have o: "download_opts OUTTMPL0 ''bestvideo+bestaudio/best'' =
      download_opts (os_path_join (DOWNLOAD_FOLDER env0) (uuid4_hex env0 @ ''.%(ext)s''))
                      (format_spec_of (strip (args_get args0 ''format_id'' '''')))"
    by (simp add: env0_def outtmpl0 args0_format format_spec_of_def DEFAULT_FORMAT_def)
  have x: "ydl_extract_info env0 (download_opts OUTTMPL0 ''bestvideo+bestaudio/best'') URL0 True (files w0)
      = (Inr info0, {OUT_MP4})"
    by (simp add: env0_def w0_def)
  have p: "OUT_WEBM = ydl_prepare_filename env0 (download_opts OUTTMPL0 ''bestvideo+bestaudio/best'') info0"
    by (simp add: env0_def)
  have f: "OUT_MP4 = (if OUT_WEBM \<in> {OUT_MP4} then OUT_WEBM else fst (os_path_splitext OUT_WEBM) @ ''.mp4'')"
    by (simp add: alt_of_webm out_distinct)
  have r: "ffmpeg_runs env0" by (simp add: env0_def)
  from cleanup_of_resolved_file [OF args0_url URL0_not_nil valid_short r o x p f]
  show ?thesis using serve_env0 x by simp
qed

text \<open>A removal that raises: the message is printed and the attachment is still the answer.\<close>

lemma cleanup_error_swallowed:
  "serve_download env_locked args0 w0 =
     (Attachment OUT_MP4 ''My_Video_Clip_.mp4'',
      \<lparr>files = {OUT_MP4},
       calls = [Subprocess_run [''ffmpeg'', ''-version''], Uuid4,
                Extract_info (download_opts OUTTMPL0 ''bestvideo+bestaudio/best'') URL0 True,
                Path_exists OUT_WEBM, Path_exists OUT_MP4, Path_exists OUT_MP4,
                Send_file OUT_MP4 ''My_Video_Clip_.mp4'', Path_exists OUT_MP4,
                Os_remove OUT_MP4, Print ''Cleanup error: [WinError 32] file in use'']\<rparr>)"
proof -
  have d: "download env_locked args0 w0 =
     download_job env_locked URL0 (download_opts OUTTMPL0 ''bestvideo+bestaudio/best'')
       \<lparr>files = {}, calls = [Subprocess_run [''ffmpeg'', ''-version''], Uuid4]\<rparr>"
    by (rule download_sample) (simp_all add: env_locked_def env0_def)
  show ?thesis
    unfolding serve_download_def d
    by (subst download_job_found [where i = info0 and fs = "{OUT_MP4}"
          and reported = OUT_WEBM and alt = OUT_MP4 and final = OUT_MP4])
       (simp_all add: env_locked_def env0_def alt_of_webm name0 out_distinct run_one
          remove_file_def os_path_exists_def os_remove_def called_def)
qed

section \<open>The format list\<close>

lemma list_sort_is_sort_key: "list_sort k xs = sort_key k xs"
  by (simp add: list_sort_def sort_key_def)

lemma set_collect_formats:
  "set (collect_formats fs) = {make_fmt f | f. f \<in> set fs \<and> admitted (make_fmt f)}"
  by (induction fs) (auto simp: Let_def)

lemma admitted_iff:
  "admitted fm \<longleftrightarrow> ext fm \<in> {Some ''mp4'', Some ''webm'', Some ''m4a'', Some ''mp3'', Some ''opus''}"
  by (simp add: admitted_def ALLOWED_EXT_def)

lemma retained_info1:
  "map format_id (retained_formats info1) = [Some ''140'', Some ''136'', Some ''137'', Some ''18'']"
  by (simp add: retained_formats_def info1_def info_titled_def raw_def make_fmt_def admitted_def
        ALLOWED_EXT_def Let_def)

lemma sorted_info1:
  "map format_id (sorted_formats info1) = [Some ''18'', Some ''137'', Some ''136'', Some ''140'']"
  by (simp add: sorted_formats_def list_sort_def retained_formats_def info1_def info_titled_def
        raw_def make_fmt_def admitted_def ALLOWED_EXT_def Let_def sort_key_fmt_def num_or_def
        less_eq_prod_def less_prod_def opt_num_or_def label_of_def)

lemma sorted_codecless:
  "sorted_formats info_codecless = [make_fmt (raw ''x'' ''mp4'' ''none'' ''none'' None None)]"
  by (simp add: sorted_formats_def list_sort_def retained_formats_def info_codecless_def
        info_titled_def raw_def make_fmt_def admitted_def ALLOWED_EXT_def Let_def)

text \<open>
  C5: the retained format list is sorted by the composite key (group, -height, -abr), where
  group is 0 for progressive, 1 for video-only and 2 for audio-only descriptors and a
  missing height or audio bitrate counts as 0.  The sort keeps the retained descriptors, is
  idempotent (a list already in key order comes back unchanged) and is stable (descriptors
  with the same key keep their input order).  Tuples are compared lexicographically.
\<close>

theorem formats_sorted_stable:
  "sorted (map sort_key_fmt (sorted_formats i))
   \<and> set (sorted_formats i) = set (retained_formats i)
   \<and> length (sorted_formats i) = length (retained_formats i)
   \<and> (\<forall>k. filter (\<lambda>f. sort_key_fmt f = k) (sorted_formats i)
           = filter (\<lambda>f. sort_key_fmt f = k) (retained_formats i))
   \<and> list_sort sort_key_fmt (sorted_formats i) = sorted_formats i
   \<and> (\<forall>fs. sorted (map sort_key_fmt fs) \<longrightarrow> list_sort sort_key_fmt fs = fs)
   \<and> (\<forall>f. sort_key_fmt f =
            (if progressive f then 0 else if video_only f then 1 else 2,
             - (case height f of None \<Rightarrow> 0 | Some h \<Rightarrow> h),
             - (case abr f of None \<Rightarrow> 0 | Some a \<Rightarrow> a)))
   \<and> (\<forall>r. (progressive (make_fmt r) \<longrightarrow> fst (sort_key_fmt (make_fmt r)) = 0)
          \<and> (video_only (make_fmt r) \<longrightarrow> fst (sort_key_fmt (make_fmt r)) = 1)
          \<and> (audio_only (make_fmt r) \<longrightarrow> fst (sort_key_fmt (make_fmt r)) = 2))
   \<and> (\<forall>g h a g' h' a'. ((g, h, a) \<le> (g' :: int, h' :: int, a' :: real))
          = (g < g' \<or> g = g' \<and> (h < h' \<or> h = h' \<and> a \<le> a')))"
proof -
  have s: "sorted (map sort_key_fmt (sorted_formats i))"
    by (simp add: sorted_formats_def list_sort_is_sort_key)
  have p: "set (sorted_formats i) = set (retained_formats i)"
    "length (sorted_formats i) = length (retained_formats i)"
    by (simp_all add: sorted_formats_def list_sort_is_sort_key)
  have st: "filter (\<lambda>f. sort_key_fmt f = k) (sorted_formats i)
           = filter (\<lambda>f. sort_key_fmt f = k) (retained_formats i)" for k
    by (simp add: sorted_formats_def list_sort_is_sort_key sort_key_stable)
  have idem: "list_sort sort_key_fmt fs = fs" if "sorted (map sort_key_fmt fs)" for fs
    using that by (simp add: list_sort_is_sort_key sort_key_id_if_sorted)
  have key: "sort_key_fmt f =
            (if progressive f then 0 else if video_only f then 1 else 2,
             - (case height f of None \<Rightarrow> 0 | Some h \<Rightarrow> h),
             - (case abr f of None \<Rightarrow> 0 | Some a \<Rightarrow> a))" for f
    by (simp add: sort_key_fmt_def num_or_def Let_def split: option.splits)
  have grp: "(progressive (make_fmt r) \<longrightarrow> fst (sort_key_fmt (make_fmt r)) = 0)
          \<and> (video_only (make_fmt r) \<longrightarrow> fst (sort_key_fmt (make_fmt r)) = 1)
          \<and> (audio_only (make_fmt r) \<longrightarrow> fst (sort_key_fmt (make_fmt r)) = 2)" for r
    by (simp add: key) (simp add: make_fmt_def)
  have lex: "((g, h, a) \<le> (g' :: int, h' :: int, a' :: real))
          = (g < g' \<or> g = g' \<and> (h < h' \<or> h = h' \<and> a \<le> a'))" for g h a g' h' a'
    by (auto simp: less_eq_prod_def less_prod_def)
  show ?thesis
    using s p st idem [OF s] idem key grp lex by blast
qed

theorem formats_sorted_stable_witness:
  "map format_id (sorted_formats info1) = [Some ''18'', Some ''137'', Some ''136'', Some ''140'']
   \<and> sorted (map sort_key_fmt (sorted_formats info1))
   \<and> list_sort sort_key_fmt (sorted_formats info1) = sorted_formats info1"
  using formats_sorted_stable [of info1] sorted_info1 by simp

text \<open>
  C2 as stated: for every descriptor admitted into the metadata result, exactly one of
  \<open>progressive\<close>, \<open>video_only\<close>, \<open>audio_only\<close> is true and its extension is one of
  mp4, webm, m4a, mp3, opus.  It fails for an entry in an allowed container whose video and
  audio codec are both \<open>none\<close>: the filter looks at the extension only, the entry is
  admitted and none of the three is true.
\<close>

theorem codecless_format_admitted:
  "sorted_formats info_codecless = [make_fmt (raw ''x'' ''mp4'' ''none'' ''none'' None None)]
   \<and> ext (make_fmt (raw ''x'' ''mp4'' ''none'' ''none'' None None)) = Some ''mp4''
   \<and> \<not> progressive (make_fmt (raw ''x'' ''mp4'' ''none'' ''none'' None None))
   \<and> \<not> video_only (make_fmt (raw ''x'' ''mp4'' ''none'' ''none'' None None))
   \<and> \<not> audio_only (make_fmt (raw ''x'' ''mp4'' ''none'' ''none'' None None))"
  using sorted_codecless by (simp add: make_fmt_def raw_def)

text \<open>
  C2 as amended: for every descriptor admitted into the metadata result, at most one of
  \<open>progressive\<close>, \<open>video_only\<close>, \<open>audio_only\<close> is true, and exactly one unless both
  codecs are the string \<open>none\<close>; its extension is one of mp4, webm, m4a, mp3, opus, and
  the entries with any other extension are dropped.
\<close>

theorem admitted_formats_classified:
  "set (sorted_formats i) =
     {make_fmt f | f. f \<in> set (case info_formats i of None \<Rightarrow> [] | Some fs \<Rightarrow> fs)
        \<and> r_ext f \<in> {Some ''mp4'', Some ''webm'', Some ''m4a'', Some ''mp3'', Some ''opus''}}
   \<and> (\<forall>fm \<in> set (sorted_formats i).
         ext fm \<in> {Some ''mp4'', Some ''webm'', Some ''m4a'', Some ''mp3'', Some ''opus''}
       \<and> count_true [progressive fm, video_only fm, audio_only fm] \<le> 1
       \<and> (count_true [progressive fm, video_only fm, audio_only fm] = 1
            \<longleftrightarrow> \<not> (vcodec fm = Some ''none'' \<and> acodec fm = Some ''none'')))"
proof -
  define fs where "fs = (case info_formats i of None \<Rightarrow> [] | Some fs \<Rightarrow> fs)"
  have e: "ext (make_fmt f) = r_ext f" for f by (simp add: make_fmt_def)
  have s: "set (sorted_formats i) =
     {make_fmt f | f. f \<in> set fs
        \<and> r_ext f \<in> {Some ''mp4'', Some ''webm'', Some ''m4a'', Some ''mp3'', Some ''opus''}}"
    by (simp add: sorted_formats_def list_sort_is_sort_key retained_formats_def
          set_collect_formats admitted_iff e fs_def)
  have c: "count_true [progressive (make_fmt f), video_only (make_fmt f), audio_only (make_fmt f)] \<le> 1
       \<and> (count_true [progressive (make_fmt f), video_only (make_fmt f), audio_only (make_fmt f)] = 1
            \<longleftrightarrow> \<not> (vcodec (make_fmt f) = Some ''none'' \<and> acodec (make_fmt f) = Some ''none''))" for f
    by (auto simp: make_fmt_def count_true_def)
  show ?thesis
    unfolding fs_def [symmetric] s using c e by auto
qed

theorem admitted_formats_classified_witness:
  "map ext (sorted_formats info1) = [Some ''mp4'', Some ''mp4'', Some ''mp4'', Some ''m4a'']
   \<and> map (\<lambda>fm. count_true [progressive fm, video_only fm, audio_only fm]) (sorted_formats info1)
       = [1, 1, 1, 1]
   \<and> Some ''sb0'' \<notin> set (map format_id (sorted_formats info1))"
proof -
  have m: "map (\<lambda>fm. (ext fm, count_true [progressive fm, video_only fm, audio_only fm]))
             (sorted_formats info1)
       = [(Some ''mp4'', 1), (Some ''mp4'', 1), (Some ''mp4'', 1), (Some ''m4a'', 1)]"
    by (simp add: sorted_formats_def list_sort_def retained_formats_def info1_def info_titled_def
        raw_def make_fmt_def admitted_def ALLOWED_EXT_def Let_def sort_key_fmt_def num_or_def
        less_eq_prod_def less_prod_def opt_num_or_def label_of_def count_true_def)
  have a: "map ext (sorted_formats info1) = map fst (map (\<lambda>fm. (ext fm, count_true [progressive fm, video_only fm, audio_only fm])) (sorted_formats info1))"
    by simp
  have b: "map (\<lambda>fm. count_true [progressive fm, video_only fm, audio_only fm]) (sorted_formats info1)
     = map snd (map (\<lambda>fm. (ext fm, count_true [progressive fm, video_only fm, audio_only fm])) (sorted_formats info1))"
    by simp
  from admitted_formats_classified [of info1] show ?thesis
    unfolding a b m using sorted_info1 by simp
qed

text \<open>
  When the engine's result has \<open>formats\<close> present with a null value, the loop raises,
  no list is built and the answer is 500 with the message of the exception.
\<close>

lemma video_info_null_formats:
  assumes "strip (args_get args ''url'' '''') = url" "url \<noteq> []"
    and "is_valid_youtube_url (Some url)"
    and "ydl_extract_info e
           [(''quiet'', OBool True), (''no_warnings'', OBool True), (''skip_download'', OBool True),
            (''geo_bypass'', OBool True), (''nocheckcertificate'', OBool True)]
           url False (files w) = (Inr i, fs)"
    and "info_formats i = None"
  shows "fst (video_info e args w)
           = Error_json (''Failed to fetch video info: '' @ NOT_ITERABLE) 500"
  using assms by (simp add: video_info_def extract_info_def Let_def)

end
